theory Spec2Isabelle
  imports Main "HOL-Library.Log_Nat"
begin

section \<open>Python values used by utils.py\<close>

subsection \<open>Strings\<close>

text \<open>
  A Python \<open>str\<close> is modelled as a \<open>string\<close> whose characters are read as the code
  points 0..255.  The character classes below are those of CPython for that range.
\<close>

definition isspace :: "char \<Rightarrow> bool" where
  "isspace c =
     (let n = (of_char c :: nat)
      in (9 \<le> n \<and> n \<le> 13) \<or> (28 \<le> n \<and> n \<le> 32) \<or> n = 133 \<or> n = 160)"

definition isalnum :: "char \<Rightarrow> bool" where
  "isalnum c =
     (let n = (of_char c :: nat)
      in (48 \<le> n \<and> n \<le> 57) \<or> (65 \<le> n \<and> n \<le> 90) \<or> (97 \<le> n \<and> n \<le> 122)
         \<or> n = 170 \<or> n = 178 \<or> n = 179 \<or> n = 181 \<or> n = 185 \<or> n = 186
         \<or> (188 \<le> n \<and> n \<le> 190) \<or> (192 \<le> n \<and> n \<le> 214)
         \<or> (216 \<le> n \<and> n \<le> 246) \<or> (248 \<le> n \<and> n \<le> 255))"

definition lower_char :: "char \<Rightarrow> char" where
  "lower_char c =
     (let n = (of_char c :: nat)
      in if (65 \<le> n \<and> n \<le> 90) \<or> (192 \<le> n \<and> n \<le> 214) \<or> (216 \<le> n \<and> n \<le> 222)
         then char_of (n + 32) else c)"

definition lower :: "string \<Rightarrow> string" where
  "lower s = map lower_char s"

text \<open>\<open>s.strip()\<close>: whitespace removed at both ends.\<close>

definition strip :: "string \<Rightarrow> string" where
  "strip s = rev (dropWhile isspace (rev (dropWhile isspace s)))"

text \<open>\<open>s.split()\<close>: the maximal runs of non-whitespace characters, in order.\<close>

fun split_acc :: "string \<Rightarrow> string \<Rightarrow> string list" where
  "split_acc cur [] = (if cur = [] then [] else [cur])"
| "split_acc cur (c # cs) =
     (if isspace c then (if cur = [] then split_acc [] cs else cur # split_acc [] cs)
      else split_acc (cur @ [c]) cs)"

definition split_ws :: "string \<Rightarrow> string list" where
  "split_ws s = split_acc [] s"

text \<open>\<open>p in s\<close> on strings: \<open>p\<close> occurs in \<open>s\<close> as a contiguous run.\<close>

fun starts_with :: "string \<Rightarrow> string \<Rightarrow> bool" where
  "starts_with [] s = True"
| "starts_with (p # ps) [] = False"
| "starts_with (p # ps) (c # cs) = (p = c \<and> starts_with ps cs)"

fun contains :: "string \<Rightarrow> string \<Rightarrow> bool" where
  "contains p [] = (p = [])"
| "contains p (c # cs) = (starts_with p (c # cs) \<or> contains p cs)"

text \<open>\<open>x or d\<close> on an optional string and on an integer: the default replaces a falsy value.\<close>

definition or_str :: "string option \<Rightarrow> string \<Rightarrow> string" where
  "or_str x d = (case x of None \<Rightarrow> d | Some s \<Rightarrow> if s = [] then d else s)"

definition or_int :: "int \<Rightarrow> int \<Rightarrow> int" where
  "or_int x d = (if x = 0 then d else x)"

text \<open>\<open>str(n)\<close> for an integer: its decimal digits, with a sign when negative.\<close>

definition digit_char :: "nat \<Rightarrow> char" where
  "digit_char d = char_of (48 + d)"

fun dec_digits :: "nat \<Rightarrow> string" where
  "dec_digits n =
     (if n < 10 then [digit_char n] else dec_digits (n div 10) @ [digit_char (n mod 10)])"

definition str_int :: "int \<Rightarrow> string" where
  "str_int i = (if i < 0 then CHR ''-'' # dec_digits (nat (- i)) else dec_digits (nat i))"

subsection \<open>Floats\<close>

text \<open>
  A Python \<open>float\<close> is a binary64 number.  A finite one is modelled by the rational it
  denotes; \<open>to_double\<close> is the rounding every literal and every arithmetic operation
  applies to its exact result (round to nearest, ties to even, 53 significant bits).
  Exponent limits are left out: the values of this program stay far inside the normal
  range.
\<close>

definition ilog2 :: "rat \<Rightarrow> int" where
  "ilog2 x =
     (let (p, q) = quotient_of x; d = bitlen p - bitlen q
      in if 2 powi d \<le> x then d else d - 1)"

definition round_half_even :: "rat \<Rightarrow> int" where
  "round_half_even x =
     (let f = \<lfloor>x\<rfloor>; r = x - of_int f
      in if r < 1 / 2 then f else if 1 / 2 < r then f + 1
         else if even f then f else f + 1)"

definition to_double :: "rat \<Rightarrow> rat" where
  "to_double x =
     (if x = 0 then 0
      else let a = \<bar>x\<bar>; u = 2 powi (ilog2 a - 52)
           in sgn x * (of_int (round_half_even (a / u)) * u))"

text \<open>\<open>int(v)\<close> on a float truncates towards zero.\<close>

definition float_int :: "rat \<Rightarrow> int" where
  "float_int v = (if 0 \<le> v then \<lfloor>v\<rfloor> else \<lceil>v\<rceil>)"

section \<open>Sentiment\<close>

text \<open>
  The scores dictionary of the VADER analyzer has the four keys \<open>neg\<close>, \<open>neu\<close>,
  \<open>pos\<close> and \<open>compound\<close>.
\<close>

record scores =
  neg :: rat
  neu :: rat
  pos :: rat
  compound :: rat

text \<open>
  A result of \<open>analyze_sentiment_batch\<close>: the keys \<open>compound\<close> and \<open>label\<close> are always
  there, the other three only when an analyzer produced the scores.
\<close>

record sentiment =
  s_compound :: rat
  s_label :: string
  s_rest :: "(rat \<times> rat \<times> rat) option"

text \<open>
  \<open>_init_vader\<close>: \<open>None\<close> when the import left \<open>SentimentIntensityAnalyzer\<close> unset, or
  when the lexicon download or the constructor raised (\<open>Inl\<close> its message); otherwise
  the analyzer, given by its \<open>polarity_scores\<close>.
\<close>

definition init_vader ::
  "(string + (string \<Rightarrow> scores)) option \<Rightarrow> (string \<Rightarrow> scores) option" where
  "init_vader cls =
     (case cls of
        None \<Rightarrow> None
      | Some (Inl e) \<Rightarrow> None
      | Some (Inr sia) \<Rightarrow> Some sia)"

text \<open>The literal \<open>0.2\<close> of the source.\<close>

definition lit_0_2 :: rat where
  "lit_0_2 = to_double (2 / 10)"

definition label_of :: "rat \<Rightarrow> string" where
  "label_of c =
     (if lit_0_2 < c then ''positive''
      else if c < - lit_0_2 then ''negative'' else ''neutral'')"

fun sentiment_loop ::
  "(string \<Rightarrow> scores) option \<Rightarrow> string list \<Rightarrow> sentiment list \<Rightarrow> sentiment list" where
  "sentiment_loop sia [] results = results"
| "sentiment_loop sia (t # ts) results =
     (case sia of
        None \<Rightarrow>
          sentiment_loop sia ts
            (results @ [\<lparr>s_compound = 0, s_label = ''neutral'', s_rest = None\<rparr>])
      | Some f \<Rightarrow>
          (let sc = f (or_str (Some t) []);
               label = label_of (compound sc)
           in sentiment_loop sia ts
                (results @ [\<lparr>s_compound = compound sc, s_label = label,
                             s_rest = Some (neg sc, neu sc, pos sc)\<rparr>])))"

definition analyze_sentiment_batch ::
  "(string + (string \<Rightarrow> scores)) option \<Rightarrow> string list \<Rightarrow> sentiment list" where
  "analyze_sentiment_batch cls texts = sentiment_loop (init_vader cls) texts []"

section \<open>Keywords\<close>

text \<open>
  \<open>Counter(tokens)\<close>: a dictionary from token to count, its keys in the order of their
  first occurrence.
\<close>

fun counter_add :: "(string \<times> nat) list \<Rightarrow> string \<Rightarrow> (string \<times> nat) list" where
  "counter_add [] w = [(w, 1)]"
| "counter_add ((k, c) # kvs) w =
     (if k = w then (k, c + 1) # kvs else (k, c) # counter_add kvs w)"

definition Counter :: "string list \<Rightarrow> (string \<times> nat) list" where
  "Counter tokens = foldl counter_add [] tokens"

text \<open>
  Sorting by count with \<open>reverse=True\<close> is stable: entries with equal counts keep their
  order.  \<open>most_common(n)\<close> returns the first \<open>n\<close> entries of that order, none when
  \<open>n\<close> is not positive.
\<close>

definition sort_desc :: "(string \<times> nat) list \<Rightarrow> (string \<times> nat) list" where
  "sort_desc kvs = sort_key (\<lambda>kv. - int (snd kv)) kvs"

definition most_common :: "int \<Rightarrow> (string \<times> nat) list \<Rightarrow> (string \<times> nat) list" where
  "most_common n cnt = take (nat n) (sort_desc cnt)"

text \<open>\<open>xs[:k]\<close>: a negative \<open>k\<close> counts from the end.\<close>

definition slice_to :: "int \<Rightarrow> 'a list \<Rightarrow> 'a list" where
  "slice_to k xs = (if 0 \<le> k then take (nat k) xs else take (length xs - nat (- k)) xs)"

definition fillers :: "string list" where
  "fillers = [''the'', ''from'', ''says'', ''and'', ''or'', ''a'', ''an'', ''to'', ''in'',
              ''of'', ''on'', ''for'', ''with'']"

text \<open>The inner loop of the fallback: the tokens one text contributes.\<close>

fun word_loop :: "string list \<Rightarrow> string list \<Rightarrow> string list" where
  "word_loop [] tokens = tokens"
| "word_loop (w # ws) tokens =
     (let w' = filter isalnum w
      in if length w' < 3 \<or> w' \<in> set fillers then word_loop ws tokens
         else word_loop ws (tokens @ [w']))"

fun text_loop :: "string list \<Rightarrow> string list \<Rightarrow> string list" where
  "text_loop [] tokens = tokens"
| "text_loop (t # ts) tokens =
     text_loop ts (word_loop (split_ws (lower (or_str (Some t) []))) tokens)"

text \<open>
  \<open>extract_keywords\<close>.  \<open>CountVectorizer\<close> is a library outside the repository: when it
  was imported, \<open>cv\<close> holds the function from the texts to the vocabulary with the summed
  counts (the list \<open>freq\<close> before it is sorted).  An exception raised inside the
  library is not caught by the source and is not part of the model.
\<close>

definition extract_keywords ::
  "(string list \<Rightarrow> (string \<times> nat) list) option \<Rightarrow> string list \<Rightarrow> int
     \<Rightarrow> (string \<times> nat) list" where
  "extract_keywords cv texts top_k =
     (if texts = [] then []
      else case cv of
             None \<Rightarrow> most_common top_k (Counter (text_loop texts []))
           | Some vect \<Rightarrow> slice_to top_k (sort_desc (vect texts)))"

section \<open>Buzz meter\<close>

definition buzz_meter_value :: "'a list \<Rightarrow> int" where
  "buzz_meter_value articles =
     (let n = length articles
      in max 5 (min 100 (float_int (to_double (100 * to_double (of_nat n / 40))))))"

text \<open>
  The formula of the specification, \<open>max(5, min(100, round(100 * count / 40)))\<close>, on exact
  numbers, with \<open>round\<close> read as Python's (ties to even).
\<close>

definition buzz_spec :: "nat \<Rightarrow> int" where
  "buzz_spec n = max 5 (min 100 (round_half_even (100 * of_nat n / 40)))"

section \<open>Feed URL\<close>

text \<open>
  \<open>quote_plus\<close> of \<open>urllib.parse\<close>: a space becomes \<open>+\<close>, the unreserved characters
  stay, every other character becomes the \<open>%XX\<close> escapes of its UTF-8 bytes.
\<close>

definition always_safe :: "char \<Rightarrow> bool" where
  "always_safe c =
     (let n = (of_char c :: nat)
      in (48 \<le> n \<and> n \<le> 57) \<or> (65 \<le> n \<and> n \<le> 90) \<or> (97 \<le> n \<and> n \<le> 122)
         \<or> n = 45 \<or> n = 46 \<or> n = 95 \<or> n = 126)"

definition hex_digit :: "nat \<Rightarrow> char" where
  "hex_digit d = (if d < 10 then char_of (48 + d) else char_of (55 + d))"

definition percent :: "nat \<Rightarrow> string" where
  "percent b = [CHR ''%'', hex_digit (b div 16), hex_digit (b mod 16)]"

definition utf8 :: "char \<Rightarrow> nat list" where
  "utf8 c =
     (let n = (of_char c :: nat)
      in if n < 128 then [n] else [192 + n div 64, 128 + n mod 64])"

definition quote_char :: "char \<Rightarrow> string" where
  "quote_char c =
     (if c = CHR '' '' then ''+''
      else if always_safe c then [c] else concat (map percent (utf8 c)))"

definition quote_plus :: "string \<Rightarrow> string" where
  "quote_plus s = concat (map quote_char s)"

text \<open>
  \<open>_google_news_url\<close> on 8-bit strings, as \<open>fetch_google_news\<close> uses it below: the
  URL it returns.  The two exceptions the source can raise here are the subject of the
  next subsection.
\<close>

definition google_news_url :: "string \<Rightarrow> int \<Rightarrow> string \<Rightarrow> string \<Rightarrow> string" where
  "google_news_url query days_back region lang =
     (let q = (if query \<noteq> [] then quote_plus (strip query) else ''AI'');
          days = max 1 (or_int days_back 7)
      in ''https://news.google.com/rss/search?'' @
         ''q='' @ q @ ''+when:'' @ str_int days @ ''d&hl='' @ lang @ ''-'' @ region @
         ''&gl='' @ region @ ''&ceid='' @ region @ '':'' @ lang)"

subsection \<open>The builder on every Python string\<close>

text \<open>
  \<open>_google_news_url\<close> has no \<open>try\<close>, and two of the library calls it makes can raise on
  arguments of the declared types: \<open>quote_plus\<close> encodes the query as UTF-8, which fails
  on a lone surrogate, and formatting \<open>{days}\<close> fails on an integer of more than 4300
  decimal digits (the default of \<open>sys.get_int_max_str_digits()\<close>).  Neither can be
  seen on strings of 8-bit characters, so the builder is given once more on strings in
  full: a \<open>str\<close> as the list of its code points, each at most 1114111.  On code points
  below 256 and day counts of at most 4300 digits it returns what \<open>google_news_url\<close>
  returns.
\<close>

type_synonym ustr = "nat list"

definition ustr :: "string \<Rightarrow> ustr" where
  "ustr s = map of_char s"

definition code_point :: "nat \<Rightarrow> bool" where
  "code_point c = (c \<le> 1114111)"

datatype py_error = UnicodeEncodeError | ValueError

text \<open>\<open>str.isspace\<close> over all of Unicode, and \<open>strip\<close> with it.\<close>

definition u_isspace :: "nat \<Rightarrow> bool" where
  "u_isspace n =
     ((9 \<le> n \<and> n \<le> 13) \<or> (28 \<le> n \<and> n \<le> 32) \<or> n = 133 \<or> n = 160 \<or> n = 5760
      \<or> (8192 \<le> n \<and> n \<le> 8202) \<or> n = 8232 \<or> n = 8233 \<or> n = 8239 \<or> n = 8287
      \<or> n = 12288)"

definition u_strip :: "ustr \<Rightarrow> ustr" where
  "u_strip s = rev (dropWhile u_isspace (rev (dropWhile u_isspace s)))"

text \<open>The code points U+D800 to U+DFFF, which UTF-8 refuses.\<close>

definition surrogate :: "nat \<Rightarrow> bool" where
  "surrogate c = (55296 \<le> c \<and> c \<le> 57343)"

text \<open>The UTF-8 bytes of a code point that is no surrogate.\<close>

definition utf8_encode :: "nat \<Rightarrow> nat list" where
  "utf8_encode c =
     (if c < 128 then [c]
      else if c < 2048 then [192 + c div 64, 128 + c mod 64]
      else if c < 65536 then [224 + c div 4096, 128 + c div 64 mod 64, 128 + c mod 64]
      else [240 + c div 262144, 128 + c div 4096 mod 64, 128 + c div 64 mod 64,
            128 + c mod 64])"

definition safe_code :: "nat \<Rightarrow> bool" where
  "safe_code n =
     ((48 \<le> n \<and> n \<le> 57) \<or> (65 \<le> n \<and> n \<le> 90) \<or> (97 \<le> n \<and> n \<le> 122)
      \<or> n = 45 \<or> n = 46 \<or> n = 95 \<or> n = 126)"

definition quote_byte :: "nat \<Rightarrow> ustr" where
  "quote_byte b = (if safe_code b then [b] else ustr (percent b))"

definition quote_code :: "nat \<Rightarrow> ustr" where
  "quote_code c = (if c = 32 then ustr ''+'' else concat (map quote_byte (utf8_encode c)))"

definition quote_codes :: "ustr \<Rightarrow> ustr" where
  "quote_codes s = concat (map quote_code s)"

definition u_quote_plus :: "ustr \<Rightarrow> py_error + ustr" where
  "u_quote_plus s = (if list_ex surrogate s then Inl UnicodeEncodeError else Inr (quote_codes s))"

text \<open>\<open>str(i)\<close> with the limit on the number of digits.\<close>

definition int_max_str_digits :: nat where
  "int_max_str_digits = 4300"

definition u_str_int :: "int \<Rightarrow> py_error + ustr" where
  "u_str_int i =
     (if int_max_str_digits < length (dec_digits (nat \<bar>i\<bar>)) then Inl ValueError
      else Inr (ustr (str_int i)))"

definition url_base :: ustr where
  "url_base = ustr ''https://news.google.com/rss/search?''"

definition google_news_url_full ::
  "ustr \<Rightarrow> int \<Rightarrow> ustr \<Rightarrow> ustr \<Rightarrow> py_error + ustr" where
  "google_news_url_full query days_back region lang =
     (case (if query \<noteq> [] then u_quote_plus (u_strip query) else Inr (ustr ''AI'')) of
        Inl e \<Rightarrow> Inl e
      | Inr q \<Rightarrow>
          (let days = max 1 (or_int days_back 7)
           in case u_str_int days of
                Inl e \<Rightarrow> Inl e
              | Inr ds \<Rightarrow>
                  Inr (url_base @
                       ustr ''q='' @ q @ ustr ''+when:'' @ ds @ ustr ''d&hl='' @ lang @
                       ustr ''-'' @ region @ ustr ''&gl='' @ region @ ustr ''&ceid='' @
                       region @ ustr '':'' @ lang)))"

text \<open>
  A well-formed URL of this feed: the base, then a query string made of the characters
  RFC 3986 allows in a query (unreserved, sub-delimiters, \<open>:\<close>, \<open>@\<close>, \<open>/\<close>, \<open>?\<close>) and of
  percent escapes, each \<open>%\<close> followed by two hexadecimal digits.
\<close>

definition sub_delim :: "nat \<Rightarrow> bool" where
  "sub_delim n = (n \<in> set [33, 36, 38, 39, 40, 41, 42, 43, 44, 59, 61])"

definition query_code :: "nat \<Rightarrow> bool" where
  "query_code n = (safe_code n \<or> sub_delim n \<or> n \<in> set [58, 64, 47, 63])"

definition hex_code :: "nat \<Rightarrow> bool" where
  "hex_code n = ((48 \<le> n \<and> n \<le> 57) \<or> (65 \<le> n \<and> n \<le> 70) \<or> (97 \<le> n \<and> n \<le> 102))"

fun query_string :: "ustr \<Rightarrow> bool" where
  "query_string [] = True"
| "query_string (c # cs) =
     (if c = 37
      then (case cs of a # b # rest \<Rightarrow> hex_code a \<and> hex_code b \<and> query_string rest
                     | _ \<Rightarrow> False)
      else query_code c \<and> query_string cs)"

definition well_formed_url :: "ustr \<Rightarrow> bool" where
  "well_formed_url u =
     (take (length url_base) u = url_base \<and> query_string (drop (length url_base) u))"

section \<open>Fetching and parsing the feed\<close>

record article =
  title :: string
  link :: string
  published :: string
  source :: string

text \<open>
  An \<open>item\<close> element of the parsed XML document, given by its children in document
  order: the tag and the text (\<open>None\<close> when the element has none) of each.
\<close>

type_synonym element = "(string \<times> string option) list"

text \<open>
  \<open>item.findtext(tag)\<close>: the text of the first child with that tag, the empty string when
  that child has no text, \<open>None\<close> when there is no such child.
\<close>

fun findtext :: "string \<Rightarrow> element \<Rightarrow> string option" where
  "findtext t [] = None"
| "findtext t ((tg, tx) # cs) =
     (if tg = t then Some (case tx of None \<Rightarrow> [] | Some s \<Rightarrow> s) else findtext t cs)"

text \<open>The inner loop over the children of an item, looking for the publisher.\<close>

fun find_source :: "element \<Rightarrow> string" where
  "find_source [] = []"
| "find_source ((tg, tx) # cs) =
     (if contains ''source'' (lower tg) then strip (or_str tx []) else find_source cs)"

text \<open>
  An entry of the feed library's result.  A field is \<open>None\<close> when \<open>getattr\<close> takes its
  default; \<open>e_source_title\<close> is \<open>None\<close> when the entry has no \<open>source\<close>, when the source
  has no \<open>title\<close>, or when that title is \<open>None\<close>: the code reads the empty string in
  all three cases.
\<close>

record entry =
  e_title :: "string option"
  e_link :: "string option"
  e_published :: "string option"
  e_source_title :: "string option"

definition getattr :: "string option \<Rightarrow> string \<Rightarrow> string" where
  "getattr x d = (case x of None \<Rightarrow> d | Some s \<Rightarrow> s)"

text \<open>
  What lies outside the program: the network, the XML parser and the feed library.
  \<^item> \<open>http_get url attempt\<close> is the outcome of \<open>requests.get\<close> followed by
    \<open>raise_for_status\<close> at the given attempt (counted from 0): \<open>Inl\<close> the description of
    the exception raised, \<open>Inr\<close> the body text.
  \<^item> \<open>etree xml_text\<close> is \<open>ET.fromstring\<close> followed by \<open>findall(".//item")\<close>: \<open>None\<close>
    when the parser raises.
  \<^item> \<open>feedparser xml_text\<close> is the import of the feed library followed by its \<open>parse\<close>
    and the reading of \<open>entries\<close>: \<open>Inl\<close> the description of the exception raised.
\<close>

record world =
  http_get :: "string \<Rightarrow> nat \<Rightarrow> string + string"
  etree :: "string \<Rightarrow> element list option"
  feedparser :: "string \<Rightarrow> string + entry list"

text \<open>The effects the caller can observe, in order.\<close>

datatype event =
    HttpGet string string nat
  | Sleep rat
  | Warning string

definition UA :: string where
  "UA = ''Mozilla/5.0 (Windows NT 10.0; Win64; x64) '' @
        ''AppleWebKit/537.36 (KHTML, like Gecko) '' @
        ''Chrome/124.0.0.0 Safari/537.36''"

text \<open>
  The retry loop \<open>for attempt in range(3)\<close> with its \<open>else\<close> branch: \<open>Inr\<close> the body on
  \<open>break\<close>, \<open>Inl last_err\<close> when the range is exhausted.  The delay
  \<open>0.5 * (attempt + 1)\<close> is exact in binary64.
\<close>

fun http_loop ::
  "world \<Rightarrow> string \<Rightarrow> nat list \<Rightarrow> string option \<Rightarrow> event list
     \<Rightarrow> (string option + string) \<times> event list" where
  "http_loop w url [] last_err trace = (Inl last_err, trace)"
| "http_loop w url (attempt # rest) last_err trace =
     (case http_get w url attempt of
        Inr xml_text \<Rightarrow> (Inr xml_text, trace @ [HttpGet url UA 10])
      | Inl e \<Rightarrow>
          http_loop w url rest (Some e)
            (trace @ [HttpGet url UA 10, Sleep (1 / 2 * (of_nat attempt + 1))]))"

text \<open>\<open>f"{last_err}"\<close>.\<close>

definition str_err :: "string option \<Rightarrow> string" where
  "str_err e = (case e of None \<Rightarrow> ''None'' | Some s \<Rightarrow> s)"

definition cap :: "int \<Rightarrow> int" where
  "cap max_articles = max 1 (or_int max_articles 15)"

text \<open>The loop over the items of the XML document.\<close>

fun xml_loop :: "int \<Rightarrow> element list \<Rightarrow> article list \<Rightarrow> article list" where
  "xml_loop max_articles [] articles = articles"
| "xml_loop max_articles (item # items) articles =
     (let t = strip (or_str (findtext ''title'' item) []);
          l = strip (or_str (findtext ''link'' item) []);
          pubdate = strip (or_str (findtext ''pubDate'' item) []);
          src = find_source item;
          articles' =
            (if t \<noteq> [] \<and> l \<noteq> []
             then articles @ [\<lparr>title = t, link = l, published = pubdate, source = src\<rparr>]
             else articles)
      in if cap max_articles \<le> int (length articles') then articles'
         else xml_loop max_articles items articles')"

text \<open>The loop over the entries of the feed library, already cut to the first \<open>cap\<close>.\<close>

fun entry_loop :: "entry list \<Rightarrow> article list \<Rightarrow> article list" where
  "entry_loop [] articles = articles"
| "entry_loop (e # es) articles =
     (let t = strip (getattr (e_title e) []);
          l = strip (getattr (e_link e) []);
          pubdate = strip (getattr (e_published e) []);
          src = strip (or_str (e_source_title e) [])
      in entry_loop es
           (if t \<noteq> [] \<and> l \<noteq> []
            then articles @ [\<lparr>title = t, link = l, published = pubdate, source = src\<rparr>]
            else articles))"

text \<open>
  The end of \<open>fetch_google_news\<close>, which both strategies reach: an empty list of
  articles becomes the failure "no items".
\<close>

definition no_items_msg :: string where
  "no_items_msg = ''Feed returned no items (query/source may be blocked or empty).''"

definition finish :: "article list \<Rightarrow> article list \<times> string option" where
  "finish articles = (if articles = [] then ([], Some no_items_msg) else (articles, None))"

text \<open>
  The parsing half of \<open>fetch_google_news\<close>: the XML strategy, and the feed library when
  the XML parser raises.  Once the document is parsed nothing in the loop over its items
  can raise, so the feed library always starts from the empty list.
\<close>

definition parse_feed :: "world \<Rightarrow> string \<Rightarrow> int \<Rightarrow> article list \<times> string option" where
  "parse_feed w xml_text max_articles =
     (case etree w xml_text of
        Some items \<Rightarrow> finish (xml_loop max_articles items [])
      | None \<Rightarrow>
          (case feedparser w xml_text of
             Inl e2 \<Rightarrow> ([], Some (''Parse error: '' @ e2))
           | Inr entries \<Rightarrow> finish (entry_loop (slice_to (cap max_articles) entries) [])))"

text \<open>
  \<open>fetch_google_news\<close>: the fetch with its retries, then the parsing.  The result is
  always a pair of articles and optional error, given here with the effects in order.
  The decorator \<open>st.cache_data\<close> only replays such a pair for arguments seen in the last
  five minutes; the model is the computation it stores.
\<close>

definition fetch_google_news ::
  "world \<Rightarrow> string \<Rightarrow> int \<Rightarrow> int \<Rightarrow> string \<Rightarrow> string
     \<Rightarrow> (article list \<times> string option) \<times> event list" where
  "fetch_google_news w query days_back max_articles region lang =
     (let url = google_news_url query days_back region lang
      in case http_loop w url [0, 1, 2] None [] of
           (Inl last_err, trace) \<Rightarrow> (([], Some (''HTTP error fetching RSS: '' @ str_err last_err)), trace)
         | (Inr xml_text, trace) \<Rightarrow> (parse_feed w xml_text max_articles, trace))"

text \<open>\<open>fetch_news\<close>, the second definition of that name, which is the one in force.\<close>

definition fetch_news :: "world \<Rightarrow> string \<Rightarrow> int \<Rightarrow> int \<Rightarrow> article list \<times> event list" where
  "fetch_news w query days max_items =
     (case fetch_google_news w query days max_items ''US'' ''en'' of
        ((articles, err), trace) \<Rightarrow>
          (articles,
           case err of
             None \<Rightarrow> trace
           | Some msg \<Rightarrow> if msg \<noteq> [] then trace @ [Warning msg] else trace))"

section \<open>Sample inputs\<close>

text \<open>An analyzer that gives every text the same compound score.\<close>

definition constant_analyzer :: "rat \<Rightarrow> string \<Rightarrow> scores" where
  "constant_analyzer c t = \<lparr>neg = 0, neu = 1, pos = 0, compound = c\<rparr>"

text \<open>The texts of the keyword example.\<close>

definition doctor_texts :: "string list" where
  "doctor_texts = [''AI helps doctors'', ''AI helps lawyers'', ''doctors use AI'']"

text \<open>
  A feed of four items, the first without a link, as the XML parser and as the feed
  library deliver it.
\<close>

definition sample_items :: "element list" where
  "sample_items =
     [[(''title'', Some ''No link here'')],
      [(''title'', Some '' Model released ''), (''link'', Some ''https://a.example/1''),
       (''pubDate'', Some ''Mon, 01 Jan 2024''), (''source'', Some ''Wire'')],
      [(''title'', Some ''Chips''), (''link'', Some ''https://b.example/2'')],
      [(''title'', Some ''Robots''), (''link'', Some ''https://c.example/3'')]]"

definition sample_entries :: "entry list" where
  "sample_entries =
     [\<lparr>e_title = Some ''No link here'', e_link = None, e_published = None,
       e_source_title = None\<rparr>,
      \<lparr>e_title = Some '' Model released '', e_link = Some ''https://a.example/1'',
       e_published = Some ''Mon, 01 Jan 2024'', e_source_title = Some ''Wire''\<rparr>,
      \<lparr>e_title = Some ''Chips'', e_link = Some ''https://b.example/2'', e_published = None,
       e_source_title = None\<rparr>,
      \<lparr>e_title = Some ''Robots'', e_link = Some ''https://c.example/3'', e_published = None,
       e_source_title = None\<rparr>]"

text \<open>
  Five worlds: the feed arrives and is well-formed XML; it arrives and only the feed
  library can read it; it arrives at the second attempt and neither parser can read it;
  it arrives as a document without usable items; and it never arrives.
\<close>

definition online :: world where
  "online = \<lparr>http_get = (\<lambda>url attempt. Inr ''<rss/>''),
             etree = (\<lambda>xml_text. Some sample_items),
             feedparser = (\<lambda>xml_text. Inl ''not used'')\<rparr>"

definition tolerant :: world where
  "tolerant = \<lparr>http_get = (\<lambda>url attempt. Inr ''<rss>''),
               etree = (\<lambda>xml_text. None),
               feedparser = (\<lambda>xml_text. Inr sample_entries)\<rparr>"

definition broken :: world where
  "broken = \<lparr>http_get = (\<lambda>url attempt. if attempt = 0 then Inl ''503'' else Inr ''<rss>''),
             etree = (\<lambda>xml_text. None),
             feedparser = (\<lambda>xml_text. Inl ''not a feed'')\<rparr>"

definition barren :: world where
  "barren = \<lparr>http_get = (\<lambda>url attempt. Inr ''<rss/>''),
             etree = (\<lambda>xml_text. Some [[(''title'', Some ''No link here'')]]),
             feedparser = (\<lambda>xml_text. Inl ''not used'')\<rparr>"

definition offline :: world where
  "offline = \<lparr>http_get = (\<lambda>url attempt.
                 Inl (if attempt = 2 then ''connection reset'' else ''timed out'')),
              etree = (\<lambda>xml_text. None),
              feedparser = (\<lambda>xml_text. Inl ''not used'')\<rparr>"

section \<open>Rounding to binary64\<close>

text \<open>
  The exponent \<open>ilog2 x\<close> is the one with \<open>2 ^ e \<le> x < 2 ^ (e + 1)\<close>; the rounding is
  monotone and keeps the numbers that are already binary64.
\<close>


lemma quotient_of_pos:
  assumes "0 < x" "quotient_of x = (p, q)"
  shows "0 < p" "0 < q" "x = of_int p / of_int q"
proof -
  show q: "0 < q" using assms(2) quotient_of_denom_pos by blast
  show x: "x = of_int p / of_int q" using assms(2) quotient_of_div by blast
  show "0 < p" using assms(1) q x by (simp add: zero_less_divide_iff)
qed

lemma bitlen_powi_bounds:
  assumes "0 < (p::int)"
  shows "(2::rat) powi (bitlen p - 1) \<le> of_int p" "of_int p < (2::rat) powi (bitlen p)"
proof -
  from bitlen_bounds[OF assms] have a: "2 ^ nat (bitlen p - 1) \<le> p" and b: "p < 2 ^ nat (bitlen p)"
    by auto
  have nn: "0 \<le> bitlen p - 1"
    using assms bitlen_eq_zero_iff[of p] bitlen_nonneg[of p] by simp
  have "(2::rat) powi (bitlen p - 1) = 2 ^ nat (bitlen p - 1)"
    using nn by (simp add: power_int_nonneg_exp)
  also have "\<dots> = of_int (2 ^ nat (bitlen p - 1))" by simp
  also have "\<dots> \<le> of_int p" using a by (simp only: of_int_le_iff)
  finally show "(2::rat) powi (bitlen p - 1) \<le> of_int p" .
  have "of_int p < (of_int (2 ^ nat (bitlen p)) :: rat)" using b by (simp only: of_int_less_iff)
  also have "\<dots> = 2 ^ nat (bitlen p)" by simp
  also have "\<dots> = 2 powi (bitlen p)" using nn by (simp add: power_int_nonneg_exp)
  finally show "of_int p < (2::rat) powi (bitlen p)" .
qed

lemma ilog2_bounds:
  assumes "0 < x"
  shows "2 powi (ilog2 x) \<le> x" "x < 2 powi (ilog2 x + 1)"
proof -
  obtain p q where pq: "quotient_of x = (p, q)" by (cases "quotient_of x")
  note f = quotient_of_pos[OF assms pq]
  let ?d = "bitlen p - bitlen q"
  have p1: "(2::rat) powi (bitlen p - 1) \<le> of_int p" and p2: "of_int p < (2::rat) powi (bitlen p)"
    using bitlen_powi_bounds[OF f(1)] by auto
  have q1: "(2::rat) powi (bitlen q - 1) \<le> of_int q" and q2: "of_int q < (2::rat) powi (bitlen q)"
    using bitlen_powi_bounds[OF f(2)] by auto
  have qpos: "(0::rat) < of_int q" and ppos: "(0::rat) < of_int p" using f by auto
  have up: "x < 2 powi (?d + 1)"
  proof -
    have "x * 2 powi (bitlen q - 1) \<le> x * of_int q" using q1 assms by simp
    also have "\<dots> = of_int p" using f(3) qpos by simp
    also have "\<dots> < 2 powi (bitlen p)" by (rule p2)
    finally have "x * 2 powi (bitlen q - 1) < 2 powi (bitlen p)" .
    then have "x < 2 powi (bitlen p) / 2 powi (bitlen q - 1)"
      by (simp add: pos_less_divide_eq)
    also have "\<dots> = 2 powi (bitlen p - (bitlen q - 1))"
      by (rule power_int_diff[symmetric]) simp
    also have "bitlen p - (bitlen q - 1) = ?d + 1" by simp
    finally show ?thesis .
  qed
  have lo: "2 powi (?d - 1) \<le> x"
  proof -
    have "2 powi (bitlen p - 1) \<le> (of_int p :: rat)" by (rule p1)
    also have "\<dots> = x * of_int q" using f(3) qpos by simp
    also have "\<dots> \<le> x * 2 powi (bitlen q)" using q2 assms by simp
    finally have "2 powi (bitlen p - 1) / 2 powi (bitlen q) \<le> x"
      by (simp add: pos_divide_le_eq)
    moreover have "(2::rat) powi (bitlen p - 1) / 2 powi (bitlen q) = 2 powi (bitlen p - 1 - bitlen q)"
      by (rule power_int_diff[symmetric]) simp
    moreover have "bitlen p - 1 - bitlen q = ?d - 1" by simp
    ultimately show ?thesis by simp
  qed
  show "2 powi (ilog2 x) \<le> x"
    using lo by (simp add: ilog2_def pq Let_def)
  show "x < 2 powi (ilog2 x + 1)"
    using up by (auto simp add: ilog2_def pq Let_def not_le)
qed

lemma ilog2_unique:
  assumes "0 < x" "2 powi e \<le> x" "x < 2 powi (e + 1)"
  shows "ilog2 x = e"
proof (rule ccontr)
  assume ne: "ilog2 x \<noteq> e"
  note b = ilog2_bounds[OF assms(1)]
  show False
  proof (cases "ilog2 x < e")
    case True
    then have "(2::rat) powi (ilog2 x + 1) \<le> 2 powi e"
      by (intro power_int_increasing) auto
    with b(2) assms(2) show False by simp
  next
    case False
    with ne have "e + 1 \<le> ilog2 x" by simp
    then have "(2::rat) powi (e + 1) \<le> 2 powi (ilog2 x)"
      by (intro power_int_increasing) auto
    with b(1) assms(3) show False by simp
  qed
qed

lemma round_half_even_near:
  assumes "of_int m - 1 / 2 < x" "x < of_int m + 1 / 2"
  shows "round_half_even x = m"
proof (cases "of_int m \<le> x")
  case True
  then have "\<lfloor>x\<rfloor> = m" using assms(2) by (intro floor_unique) auto
  then show ?thesis using assms(2) by (simp add: round_half_even_def Let_def)
next
  case False
  then have "\<lfloor>x\<rfloor> = m - 1" using assms(1) by (intro floor_unique) auto
  then show ?thesis using assms(1) by (simp add: round_half_even_def Let_def)
qed

lemma to_double_pos_eq:
  assumes "0 < x" "2 powi e \<le> x" "x < 2 powi (e + 1)"
    and "round_half_even (x / 2 powi (e - 52)) = m"
  shows "to_double x = of_int m * 2 powi (e - 52)"
  using assms ilog2_unique[OF assms(1,2,3)] by (simp add: to_double_def)

lemma floor_rat_numeral: "\<lfloor>numeral a / numeral b :: rat\<rfloor> = numeral a div numeral b"
  by (metis floor_divide_of_int_eq of_int_numeral)

lemma to_double_posI:
  assumes "0 < x" "2 powi e \<le> x" "x < 2 powi (e + 1)"
    and "of_int m - 1 / 2 < x / 2 powi (e - 52)" "x / 2 powi (e - 52) < of_int m + 1 / 2"
    and "y = of_int m * 2 powi (e - 52)"
  shows "to_double x = y"
  using to_double_pos_eq[OF assms(1,2,3) round_half_even_near[OF assms(4,5)]] assms(6) by simp

lemma fl_buzz_0: "to_double (100 * to_double (of_nat (0::nat) / 40)) = 0"
  by (simp add: to_double_def)

lemma fl_buzz_1: "to_double (100 * to_double (of_nat (1::nat) / 40)) = 5 / 2"
proof -
  have a: "to_double (of_nat (1::nat) / 40) = 3602879701896397 / 144115188075855872"
    by (rule to_double_posI [where e = "-6" and m = 7205759403792794]) simp_all
  have b: "to_double (100 * (3602879701896397 / 144115188075855872)) = 5 / 2"
    by (rule to_double_posI [where e = 1 and m = 5629499534213120]) simp_all
  show ?thesis by (simp only: a b)
qed

lemma fl_buzz_2: "to_double (100 * to_double (of_nat (2::nat) / 40)) = 5"
proof -
  have a: "to_double (of_nat (2::nat) / 40) = 3602879701896397 / 72057594037927936"
    by (rule to_double_posI [where e = "-5" and m = 7205759403792794]) simp_all
  have b: "to_double (100 * (3602879701896397 / 72057594037927936)) = 5"
    by (rule to_double_posI [where e = 2 and m = 5629499534213120]) simp_all
  show ?thesis by (simp only: a b)
qed

lemma fl_buzz_3: "to_double (100 * to_double (of_nat (3::nat) / 40)) = 15 / 2"
proof -
  have a: "to_double (of_nat (3::nat) / 40) = 5404319552844595 / 72057594037927936"
    by (rule to_double_posI [where e = "-4" and m = 5404319552844595]) simp_all
  have b: "to_double (100 * (5404319552844595 / 72057594037927936)) = 15 / 2"
    by (rule to_double_posI [where e = 2 and m = 8444249301319680]) simp_all
  show ?thesis by (simp only: a b)
qed

lemma fl_buzz_4: "to_double (100 * to_double (of_nat (4::nat) / 40)) = 10"
proof -
  have a: "to_double (of_nat (4::nat) / 40) = 3602879701896397 / 36028797018963968"
    by (rule to_double_posI [where e = "-4" and m = 7205759403792794]) simp_all
  have b: "to_double (100 * (3602879701896397 / 36028797018963968)) = 10"
    by (rule to_double_posI [where e = 3 and m = 5629499534213120]) simp_all
  show ?thesis by (simp only: a b)
qed

lemma fl_buzz_5: "to_double (100 * to_double (of_nat (5::nat) / 40)) = 25 / 2"
proof -
  have a: "to_double (of_nat (5::nat) / 40) = 1 / 8"
    by (rule to_double_posI [where e = "-3" and m = 4503599627370496]) simp_all
  have b: "to_double (100 * (1 / 8)) = 25 / 2"
    by (rule to_double_posI [where e = 3 and m = 7036874417766400]) simp_all
  show ?thesis by (simp only: a b)
qed

lemma fl_buzz_6: "to_double (100 * to_double (of_nat (6::nat) / 40)) = 15"
proof -
  have a: "to_double (of_nat (6::nat) / 40) = 5404319552844595 / 36028797018963968"
    by (rule to_double_posI [where e = "-3" and m = 5404319552844595]) simp_all
  have b: "to_double (100 * (5404319552844595 / 36028797018963968)) = 15"
    by (rule to_double_posI [where e = 3 and m = 8444249301319680]) simp_all
  show ?thesis by (simp only: a b)
qed

lemma fl_buzz_7: "to_double (100 * to_double (of_nat (7::nat) / 40)) = 35 / 2"
proof -
  have a: "to_double (of_nat (7::nat) / 40) = 3152519739159347 / 18014398509481984"
    by (rule to_double_posI [where e = "-3" and m = 6305039478318694]) simp_all
  have b: "to_double (100 * (3152519739159347 / 18014398509481984)) = 35 / 2"
    by (rule to_double_posI [where e = 4 and m = 4925812092436480]) simp_all
  show ?thesis by (simp only: a b)
qed

lemma fl_buzz_8: "to_double (100 * to_double (of_nat (8::nat) / 40)) = 20"
proof -
  have a: "to_double (of_nat (8::nat) / 40) = 3602879701896397 / 18014398509481984"
    by (rule to_double_posI [where e = "-3" and m = 7205759403792794]) simp_all
  have b: "to_double (100 * (3602879701896397 / 18014398509481984)) = 20"
    by (rule to_double_posI [where e = 4 and m = 5629499534213120]) simp_all
  show ?thesis by (simp only: a b)
qed

lemma fl_buzz_9: "to_double (100 * to_double (of_nat (9::nat) / 40)) = 45 / 2"
proof -
  have a: "to_double (of_nat (9::nat) / 40) = 8106479329266893 / 36028797018963968"
    by (rule to_double_posI [where e = "-3" and m = 8106479329266893]) simp_all
  have b: "to_double (100 * (8106479329266893 / 36028797018963968)) = 45 / 2"
    by (rule to_double_posI [where e = 4 and m = 6333186975989760]) simp_all
  show ?thesis by (simp only: a b)
qed

lemma fl_buzz_10: "to_double (100 * to_double (of_nat (10::nat) / 40)) = 25"
proof -
  have a: "to_double (of_nat (10::nat) / 40) = 1 / 4"
    by (rule to_double_posI [where e = "-2" and m = 4503599627370496]) simp_all
  have b: "to_double (100 * (1 / 4)) = 25"
    by (rule to_double_posI [where e = 4 and m = 7036874417766400]) simp_all
  show ?thesis by (simp only: a b)
qed

lemma fl_buzz_11: "to_double (100 * to_double (of_nat (11::nat) / 40)) = 7740561859543041 / 281474976710656"
proof -
  have a: "to_double (of_nat (11::nat) / 40) = 2476979795053773 / 9007199254740992"
    by (rule to_double_posI [where e = "-2" and m = 4953959590107546]) simp_all
  have b: "to_double (100 * (2476979795053773 / 9007199254740992)) = 7740561859543041 / 281474976710656"
    by (rule to_double_posI [where e = 4 and m = 7740561859543041]) simp_all
  show ?thesis by (simp only: a b)
qed

lemma fl_buzz_12: "to_double (100 * to_double (of_nat (12::nat) / 40)) = 30"
proof -
  have a: "to_double (of_nat (12::nat) / 40) = 5404319552844595 / 18014398509481984"
    by (rule to_double_posI [where e = "-2" and m = 5404319552844595]) simp_all
  have b: "to_double (100 * (5404319552844595 / 18014398509481984)) = 30"
    by (rule to_double_posI [where e = 4 and m = 8444249301319680]) simp_all
  show ?thesis by (simp only: a b)
qed

lemma fl_buzz_13: "to_double (100 * to_double (of_nat (13::nat) / 40)) = 65 / 2"
proof -
  have a: "to_double (of_nat (13::nat) / 40) = 5854679515581645 / 18014398509481984"
    by (rule to_double_posI [where e = "-2" and m = 5854679515581645]) simp_all
  have b: "to_double (100 * (5854679515581645 / 18014398509481984)) = 65 / 2"
    by (rule to_double_posI [where e = 5 and m = 4573968371548160]) simp_all
  show ?thesis by (simp only: a b)
qed

lemma fl_buzz_14: "to_double (100 * to_double (of_nat (14::nat) / 40)) = 35"
proof -
  have a: "to_double (of_nat (14::nat) / 40) = 3152519739159347 / 9007199254740992"
    by (rule to_double_posI [where e = "-2" and m = 6305039478318694]) simp_all
  have b: "to_double (100 * (3152519739159347 / 9007199254740992)) = 35"
    by (rule to_double_posI [where e = 5 and m = 4925812092436480]) simp_all
  show ?thesis by (simp only: a b)
qed

lemma fl_buzz_15: "to_double (100 * to_double (of_nat (15::nat) / 40)) = 75 / 2"
proof -
  have a: "to_double (of_nat (15::nat) / 40) = 3 / 8"
    by (rule to_double_posI [where e = "-2" and m = 6755399441055744]) simp_all
  have b: "to_double (100 * (3 / 8)) = 75 / 2"
    by (rule to_double_posI [where e = 5 and m = 5277655813324800]) simp_all
  show ?thesis by (simp only: a b)
qed

lemma fl_buzz_16: "to_double (100 * to_double (of_nat (16::nat) / 40)) = 40"
proof -
  have a: "to_double (of_nat (16::nat) / 40) = 3602879701896397 / 9007199254740992"
    by (rule to_double_posI [where e = "-2" and m = 7205759403792794]) simp_all
  have b: "to_double (100 * (3602879701896397 / 9007199254740992)) = 40"
    by (rule to_double_posI [where e = 5 and m = 5629499534213120]) simp_all
  show ?thesis by (simp only: a b)
qed

lemma fl_buzz_17: "to_double (100 * to_double (of_nat (17::nat) / 40)) = 85 / 2"
proof -
  have a: "to_double (of_nat (17::nat) / 40) = 7656119366529843 / 18014398509481984"
    by (rule to_double_posI [where e = "-2" and m = 7656119366529843]) simp_all
  have b: "to_double (100 * (7656119366529843 / 18014398509481984)) = 85 / 2"
    by (rule to_double_posI [where e = 5 and m = 5981343255101440]) simp_all
  show ?thesis by (simp only: a b)
qed

lemma fl_buzz_18: "to_double (100 * to_double (of_nat (18::nat) / 40)) = 45"
proof -
  have a: "to_double (of_nat (18::nat) / 40) = 8106479329266893 / 18014398509481984"
    by (rule to_double_posI [where e = "-2" and m = 8106479329266893]) simp_all
  have b: "to_double (100 * (8106479329266893 / 18014398509481984)) = 45"
    by (rule to_double_posI [where e = 5 and m = 6333186975989760]) simp_all
  show ?thesis by (simp only: a b)
qed

lemma fl_buzz_19: "to_double (100 * to_double (of_nat (19::nat) / 40)) = 95 / 2"
proof -
  have a: "to_double (of_nat (19::nat) / 40) = 4278419646001971 / 9007199254740992"
    by (rule to_double_posI [where e = "-2" and m = 8556839292003942]) simp_all
  have b: "to_double (100 * (4278419646001971 / 9007199254740992)) = 95 / 2"
    by (rule to_double_posI [where e = 5 and m = 6685030696878080]) simp_all
  show ?thesis by (simp only: a b)
qed

lemma fl_buzz_20: "to_double (100 * to_double (of_nat (20::nat) / 40)) = 50"
proof -
  have a: "to_double (of_nat (20::nat) / 40) = 1 / 2"
    by (rule to_double_posI [where e = "-1" and m = 4503599627370496]) simp_all
  have b: "to_double (100 * (1 / 2)) = 50"
    by (rule to_double_posI [where e = 5 and m = 7036874417766400]) simp_all
  show ?thesis by (simp only: a b)
qed

lemma fl_buzz_21: "to_double (100 * to_double (of_nat (21::nat) / 40)) = 105 / 2"
proof -
  have a: "to_double (of_nat (21::nat) / 40) = 4728779608739021 / 9007199254740992"
    by (rule to_double_posI [where e = "-1" and m = 4728779608739021]) simp_all
  have b: "to_double (100 * (4728779608739021 / 9007199254740992)) = 105 / 2"
    by (rule to_double_posI [where e = 5 and m = 7388718138654720]) simp_all
  show ?thesis by (simp only: a b)
qed

lemma fl_buzz_22: "to_double (100 * to_double (of_nat (22::nat) / 40)) = 7740561859543041 / 140737488355328"
proof -
  have a: "to_double (of_nat (22::nat) / 40) = 2476979795053773 / 4503599627370496"
    by (rule to_double_posI [where e = "-1" and m = 4953959590107546]) simp_all
  have b: "to_double (100 * (2476979795053773 / 4503599627370496)) = 7740561859543041 / 140737488355328"
    by (rule to_double_posI [where e = 5 and m = 7740561859543041]) simp_all
  show ?thesis by (simp only: a b)
qed

lemma fl_buzz_23: "to_double (100 * to_double (of_nat (23::nat) / 40)) = 8092405580431359 / 140737488355328"
proof -
  have a: "to_double (of_nat (23::nat) / 40) = 2589569785738035 / 4503599627370496"
    by (rule to_double_posI [where e = "-1" and m = 5179139571476070]) simp_all
  have b: "to_double (100 * (2589569785738035 / 4503599627370496)) = 8092405580431359 / 140737488355328"
    by (rule to_double_posI [where e = 5 and m = 8092405580431359]) simp_all
  show ?thesis by (simp only: a b)
qed

lemma fl_buzz_24: "to_double (100 * to_double (of_nat (24::nat) / 40)) = 60"
proof -
  have a: "to_double (of_nat (24::nat) / 40) = 5404319552844595 / 9007199254740992"
    by (rule to_double_posI [where e = "-1" and m = 5404319552844595]) simp_all
  have b: "to_double (100 * (5404319552844595 / 9007199254740992)) = 60"
    by (rule to_double_posI [where e = 5 and m = 8444249301319680]) simp_all
  show ?thesis by (simp only: a b)
qed

lemma fl_buzz_25: "to_double (100 * to_double (of_nat (25::nat) / 40)) = 125 / 2"
proof -
  have a: "to_double (of_nat (25::nat) / 40) = 5 / 8"
    by (rule to_double_posI [where e = "-1" and m = 5629499534213120]) simp_all
  have b: "to_double (100 * (5 / 8)) = 125 / 2"
    by (rule to_double_posI [where e = 5 and m = 8796093022208000]) simp_all
  show ?thesis by (simp only: a b)
qed

lemma fl_buzz_26: "to_double (100 * to_double (of_nat (26::nat) / 40)) = 65"
proof -
  have a: "to_double (of_nat (26::nat) / 40) = 5854679515581645 / 9007199254740992"
    by (rule to_double_posI [where e = "-1" and m = 5854679515581645]) simp_all
  have b: "to_double (100 * (5854679515581645 / 9007199254740992)) = 65"
    by (rule to_double_posI [where e = 6 and m = 4573968371548160]) simp_all
  show ?thesis by (simp only: a b)
qed

lemma fl_buzz_27: "to_double (100 * to_double (of_nat (27::nat) / 40)) = 135 / 2"
proof -
  have a: "to_double (of_nat (27::nat) / 40) = 3039929748475085 / 4503599627370496"
    by (rule to_double_posI [where e = "-1" and m = 6079859496950170]) simp_all
  have b: "to_double (100 * (3039929748475085 / 4503599627370496)) = 135 / 2"
    by (rule to_double_posI [where e = 6 and m = 4749890231992320]) simp_all
  show ?thesis by (simp only: a b)
qed

lemma fl_buzz_28: "to_double (100 * to_double (of_nat (28::nat) / 40)) = 70"
proof -
  have a: "to_double (of_nat (28::nat) / 40) = 3152519739159347 / 4503599627370496"
    by (rule to_double_posI [where e = "-1" and m = 6305039478318694]) simp_all
  have b: "to_double (100 * (3152519739159347 / 4503599627370496)) = 70"
    by (rule to_double_posI [where e = 6 and m = 4925812092436480]) simp_all
  show ?thesis by (simp only: a b)
qed

lemma fl_buzz_29: "to_double (100 * to_double (of_nat (29::nat) / 40)) = 145 / 2"
proof -
  have a: "to_double (of_nat (29::nat) / 40) = 6530219459687219 / 9007199254740992"
    by (rule to_double_posI [where e = "-1" and m = 6530219459687219]) simp_all
  have b: "to_double (100 * (6530219459687219 / 9007199254740992)) = 145 / 2"
    by (rule to_double_posI [where e = 6 and m = 5101733952880640]) simp_all
  show ?thesis by (simp only: a b)
qed

lemma fl_buzz_30: "to_double (100 * to_double (of_nat (30::nat) / 40)) = 75"
proof -
  have a: "to_double (of_nat (30::nat) / 40) = 3 / 4"
    by (rule to_double_posI [where e = "-1" and m = 6755399441055744]) simp_all
  have b: "to_double (100 * (3 / 4)) = 75"
    by (rule to_double_posI [where e = 6 and m = 5277655813324800]) simp_all
  show ?thesis by (simp only: a b)
qed

lemma fl_buzz_31: "to_double (100 * to_double (of_nat (31::nat) / 40)) = 155 / 2"
proof -
  have a: "to_double (of_nat (31::nat) / 40) = 6980579422424269 / 9007199254740992"
    by (rule to_double_posI [where e = "-1" and m = 6980579422424269]) simp_all
  have b: "to_double (100 * (6980579422424269 / 9007199254740992)) = 155 / 2"
    by (rule to_double_posI [where e = 6 and m = 5453577673768960]) simp_all
  show ?thesis by (simp only: a b)
qed

lemma fl_buzz_32: "to_double (100 * to_double (of_nat (32::nat) / 40)) = 80"
proof -
  have a: "to_double (of_nat (32::nat) / 40) = 3602879701896397 / 4503599627370496"
    by (rule to_double_posI [where e = "-1" and m = 7205759403792794]) simp_all
  have b: "to_double (100 * (3602879701896397 / 4503599627370496)) = 80"
    by (rule to_double_posI [where e = 6 and m = 5629499534213120]) simp_all
  show ?thesis by (simp only: a b)
qed

lemma fl_buzz_33: "to_double (100 * to_double (of_nat (33::nat) / 40)) = 165 / 2"
proof -
  have a: "to_double (of_nat (33::nat) / 40) = 3715469692580659 / 4503599627370496"
    by (rule to_double_posI [where e = "-1" and m = 7430939385161318]) simp_all
  have b: "to_double (100 * (3715469692580659 / 4503599627370496)) = 165 / 2"
    by (rule to_double_posI [where e = 6 and m = 5805421394657280]) simp_all
  show ?thesis by (simp only: a b)
qed

lemma fl_buzz_34: "to_double (100 * to_double (of_nat (34::nat) / 40)) = 85"
proof -
  have a: "to_double (of_nat (34::nat) / 40) = 7656119366529843 / 9007199254740992"
    by (rule to_double_posI [where e = "-1" and m = 7656119366529843]) simp_all
  have b: "to_double (100 * (7656119366529843 / 9007199254740992)) = 85"
    by (rule to_double_posI [where e = 6 and m = 5981343255101440]) simp_all
  show ?thesis by (simp only: a b)
qed

lemma fl_buzz_35: "to_double (100 * to_double (of_nat (35::nat) / 40)) = 175 / 2"
proof -
  have a: "to_double (of_nat (35::nat) / 40) = 7 / 8"
    by (rule to_double_posI [where e = "-1" and m = 7881299347898368]) simp_all
  have b: "to_double (100 * (7 / 8)) = 175 / 2"
    by (rule to_double_posI [where e = 6 and m = 6157265115545600]) simp_all
  show ?thesis by (simp only: a b)
qed

lemma fl_buzz_36: "to_double (100 * to_double (of_nat (36::nat) / 40)) = 90"
proof -
  have a: "to_double (of_nat (36::nat) / 40) = 8106479329266893 / 9007199254740992"
    by (rule to_double_posI [where e = "-1" and m = 8106479329266893]) simp_all
  have b: "to_double (100 * (8106479329266893 / 9007199254740992)) = 90"
    by (rule to_double_posI [where e = 6 and m = 6333186975989760]) simp_all
  show ?thesis by (simp only: a b)
qed

lemma fl_buzz_37: "to_double (100 * to_double (of_nat (37::nat) / 40)) = 185 / 2"
proof -
  have a: "to_double (of_nat (37::nat) / 40) = 4165829655317709 / 4503599627370496"
    by (rule to_double_posI [where e = "-1" and m = 8331659310635418]) simp_all
  have b: "to_double (100 * (4165829655317709 / 4503599627370496)) = 185 / 2"
    by (rule to_double_posI [where e = 6 and m = 6509108836433920]) simp_all
  show ?thesis by (simp only: a b)
qed

lemma fl_buzz_38: "to_double (100 * to_double (of_nat (38::nat) / 40)) = 95"
proof -
  have a: "to_double (of_nat (38::nat) / 40) = 4278419646001971 / 4503599627370496"
    by (rule to_double_posI [where e = "-1" and m = 8556839292003942]) simp_all
  have b: "to_double (100 * (4278419646001971 / 4503599627370496)) = 95"
    by (rule to_double_posI [where e = 6 and m = 6685030696878080]) simp_all
  show ?thesis by (simp only: a b)
qed

lemma fl_buzz_39: "to_double (100 * to_double (of_nat (39::nat) / 40)) = 195 / 2"
proof -
  have a: "to_double (of_nat (39::nat) / 40) = 8782019273372467 / 9007199254740992"
    by (rule to_double_posI [where e = "-1" and m = 8782019273372467]) simp_all
  have b: "to_double (100 * (8782019273372467 / 9007199254740992)) = 195 / 2"
    by (rule to_double_posI [where e = 6 and m = 6860952557322240]) simp_all
  show ?thesis by (simp only: a b)
qed

lemmas fl_buzz_table = fl_buzz_0 fl_buzz_1 fl_buzz_2 fl_buzz_3 fl_buzz_4 fl_buzz_5 fl_buzz_6 fl_buzz_7 fl_buzz_8 fl_buzz_9 fl_buzz_10 fl_buzz_11 fl_buzz_12 fl_buzz_13 fl_buzz_14 fl_buzz_15 fl_buzz_16 fl_buzz_17 fl_buzz_18 fl_buzz_19 fl_buzz_20 fl_buzz_21 fl_buzz_22 fl_buzz_23 fl_buzz_24 fl_buzz_25 fl_buzz_26 fl_buzz_27 fl_buzz_28 fl_buzz_29 fl_buzz_30 fl_buzz_31 fl_buzz_32 fl_buzz_33 fl_buzz_34 fl_buzz_35 fl_buzz_36 fl_buzz_37 fl_buzz_38 fl_buzz_39

lemma buzz_small:
  assumes "cnt < 40"
  shows "float_int (to_double (100 * to_double (of_nat cnt / 40))) = int (5 * cnt div 2)"
proof -
  from assms have "cnt = 0 \<or> cnt = 1 \<or> cnt = 2 \<or> cnt = 3 \<or> cnt = 4 \<or> cnt = 5 \<or> cnt = 6 \<or> cnt = 7 \<or> cnt = 8 \<or> cnt = 9 \<or> cnt = 10 \<or> cnt = 11 \<or> cnt = 12 \<or> cnt = 13 \<or> cnt = 14 \<or> cnt = 15 \<or> cnt = 16 \<or> cnt = 17 \<or> cnt = 18 \<or> cnt = 19 \<or> cnt = 20 \<or> cnt = 21 \<or> cnt = 22 \<or> cnt = 23 \<or> cnt = 24 \<or> cnt = 25 \<or> cnt = 26 \<or> cnt = 27 \<or> cnt = 28 \<or> cnt = 29 \<or> cnt = 30 \<or> cnt = 31 \<or> cnt = 32 \<or> cnt = 33 \<or> cnt = 34 \<or> cnt = 35 \<or> cnt = 36 \<or> cnt = 37 \<or> cnt = 38 \<or> cnt = 39"
    by arith
  then show ?thesis
    by (elim disjE; hypsubst; simp only: fl_buzz_table; simp add: float_int_def floor_rat_numeral)
qed


lemma round_half_even_bounds: "\<lfloor>x\<rfloor> \<le> round_half_even x" "round_half_even x \<le> \<lfloor>x\<rfloor> + 1"
  by (simp_all add: round_half_even_def Let_def)

lemma round_half_even_of_int: "round_half_even (of_int k) = k"
  by (rule round_half_even_near) simp_all

lemma round_half_even_mono:
  assumes "x \<le> y"
  shows "round_half_even x \<le> round_half_even y"
proof (cases "\<lfloor>x\<rfloor> = \<lfloor>y\<rfloor>")
  case True
  then show ?thesis using assms by (auto simp add: round_half_even_def Let_def)
next
  case False
  then have "\<lfloor>x\<rfloor> + 1 \<le> \<lfloor>y\<rfloor>" using floor_mono[OF assms] by simp
  then show ?thesis
    using round_half_even_bounds(2)[of x] round_half_even_bounds(1)[of y] by linarith
qed

lemma to_double_pos:
  assumes "0 < x"
  shows "to_double x = of_int (round_half_even (x / 2 powi (ilog2 x - 52))) * 2 powi (ilog2 x - 52)"
  using assms by (simp add: to_double_def Let_def)

lemma powi_split52: "(2::rat) powi e = 2 powi (e - 52) * 2 ^ 52"
  using power_int_add[of "2::rat" "e - 52" 52] by simp

lemma powi_split53: "(2::rat) powi (e + 1) = 2 powi (e - 52) * 2 ^ 53"
  using power_int_add[of "2::rat" "e - 52" 53] by (simp add: add.commute)

lemma to_double_range:
  assumes "0 < x"
  shows "2 powi (ilog2 x) \<le> to_double x" "to_double x \<le> 2 powi (ilog2 x + 1)"
proof -
  define e where "e = ilog2 x"
  define u :: rat where "u = 2 powi (e - 52)"
  have u: "0 < u" by (simp add: u_def)
  have lo: "2 ^ 52 \<le> x / u"
    using ilog2_bounds(1)[OF assms] u by (simp add: pos_le_divide_eq e_def[symmetric] u_def powi_split52[of e] mult.commute)
  have hi: "x / u \<le> 2 ^ 53"
    using ilog2_bounds(2)[OF assms] u by (simp add: pos_divide_le_eq e_def[symmetric] u_def powi_split53[of e] mult.commute)
  have "round_half_even (of_int (2 ^ 52)) \<le> round_half_even (x / u)"
    by (rule round_half_even_mono) (use lo in simp)
  then have a: "(2 ^ 52 :: rat) \<le> of_int (round_half_even (x / u))"
    unfolding round_half_even_of_int by (metis of_int_le_iff of_int_numeral of_int_power)
  have "round_half_even (x / u) \<le> round_half_even (of_int (2 ^ 53))"
    by (rule round_half_even_mono) (use hi in simp)
  then have b: "of_int (round_half_even (x / u)) \<le> (2 ^ 53 :: rat)"
    unfolding round_half_even_of_int by (metis of_int_le_iff of_int_numeral of_int_power)
  have td: "to_double x = of_int (round_half_even (x / u)) * u"
    using to_double_pos[OF assms] by (simp add: u_def e_def)
  show "2 powi (ilog2 x) \<le> to_double x"
    using a u by (simp add: td e_def[symmetric] powi_split52[of e] u_def[symmetric] mult.commute)
  show "to_double x \<le> 2 powi (ilog2 x + 1)"
    using b u by (simp add: td e_def[symmetric] powi_split53[of e] u_def[symmetric] mult.commute)
qed

lemma ilog2_mono:
  assumes "0 < x" "x \<le> y"
  shows "ilog2 x \<le> ilog2 y"
proof (rule ccontr)
  assume "\<not> ilog2 x \<le> ilog2 y"
  then have "ilog2 y + 1 \<le> ilog2 x" by simp
  then have "(2::rat) powi (ilog2 y + 1) \<le> 2 powi (ilog2 x)"
    by (intro power_int_increasing) auto
  moreover have "0 < y" using assms by simp
  ultimately show False
    using ilog2_bounds(1)[OF assms(1)] ilog2_bounds(2)[of y] assms(2) by simp
qed

lemma to_double_mono:
  assumes "0 < x" "x \<le> y"
  shows "to_double x \<le> to_double y"
proof -
  have y: "0 < y" using assms by simp
  show ?thesis
  proof (cases "ilog2 x = ilog2 y")
    case True
    define u :: rat where "u = 2 powi (ilog2 y - 52)"
    have u: "0 < u" by (simp add: u_def)
    have "x / u \<le> y / u" using assms(2) u by (simp add: divide_right_mono)
    then have "round_half_even (x / u) \<le> round_half_even (y / u)"
      by (rule round_half_even_mono)
    then have "(of_int (round_half_even (x / u)) :: rat) * u \<le> of_int (round_half_even (y / u)) * u"
      using u by simp
    then show ?thesis
      by (simp add: to_double_pos[OF assms(1)] to_double_pos[OF y] True u_def)
  next
    case False
    then have "ilog2 x + 1 \<le> ilog2 y" using ilog2_mono[OF assms] by simp
    then have "(2::rat) powi (ilog2 x + 1) \<le> 2 powi (ilog2 y)"
      by (intro power_int_increasing) auto
    then show ?thesis
      using to_double_range(2)[OF assms(1)] to_double_range(1)[OF y] by linarith
  qed
qed

lemma to_double_1: "to_double 1 = 1"
  by (rule to_double_posI [where e = 0 and m = 4503599627370496]) simp_all

lemma to_double_100: "to_double 100 = 100"
  by (rule to_double_posI [where e = 6 and m = 7036874417766400]) simp_all

lemma buzz_large:
  assumes "40 \<le> n"
  shows "100 \<le> float_int (to_double (100 * to_double (of_nat n / 40)))"
proof -
  have "(1::rat) \<le> of_nat n / 40" using assms by simp
  then have "to_double 1 \<le> to_double (of_nat n / 40)"
    by (intro to_double_mono) simp_all
  then have "(100::rat) \<le> 100 * to_double (of_nat n / 40)"
    by (simp add: to_double_1)
  then have "to_double 100 \<le> to_double (100 * to_double (of_nat n / 40))"
    by (intro to_double_mono) simp_all
  then have "(100::rat) \<le> to_double (100 * to_double (of_nat n / 40))"
    by (simp add: to_double_100)
  then show ?thesis
    by (simp add: float_int_def le_floor_iff)
qed

lemma buzz_value: "buzz_meter_value xs = max 5 (min 100 (int (5 * length xs div 2)))"
proof (cases "length xs < 40")
  case True
  then show ?thesis by (simp add: buzz_meter_value_def Let_def buzz_small)
next
  case False
  then have "100 \<le> float_int (to_double (100 * to_double (of_nat (length xs) / 40)))"
    by (intro buzz_large) simp
  moreover have "100 \<le> int (5 * length xs div 2)" using False by simp
  ultimately show ?thesis by (simp add: buzz_meter_value_def Let_def)
qed


lemma lit_0_2_value: "lit_0_2 = 3602879701896397 / 18014398509481984"
  unfolding lit_0_2_def
  by (rule to_double_posI [where e = "-3" and m = 7205759403792794]) simp_all

section \<open>The buzz meter\<close>

lemma floor_count: "\<lfloor>100 * (of_nat n :: rat) / 40\<rfloor> = int (5 * n div 2)"
proof -
  have "100 * (of_nat n :: rat) / 40 = of_nat (5 * n) / of_nat 2" by simp
  then show ?thesis by (simp only: floor_divide_of_nat_eq)
qed

text \<open>
  C4, as the specification states it, fails: with three articles the exact quotient is
  7.5, which \<open>round\<close> takes to 8, while the code's \<open>int(...)\<close> truncates to 7.
\<close>

theorem buzz_meter_round_counterexample:
  "buzz_meter_value [(), (), ()] = 7 \<and> buzz_spec 3 = 8 \<and>
   buzz_meter_value [(), (), ()] \<noteq> buzz_spec (length [(), (), ()])"
  by (simp add: buzz_value buzz_spec_def round_half_even_def floor_rat_numeral)

text \<open>
  C4, amended: for every article count \<open>n\<close> the buzz meter returns
  \<open>max(5, min(100, floor(100 * n / 40)))\<close>, the quotient truncated and not rounded;
  the result lies in [5, 100], and the counts 0, 20, 40 and 1000 give 5, 50, 100 and 100.
\<close>

theorem buzz_meter_value_floor:
  "buzz_meter_value articles
     = max 5 (min 100 \<lfloor>100 * (of_nat (length articles) :: rat) / 40\<rfloor>)
   \<and> 5 \<le> buzz_meter_value articles \<and> buzz_meter_value articles \<le> 100
   \<and> buzz_meter_value (replicate 0 a) = 5 \<and> buzz_meter_value (replicate 20 a) = 50
   \<and> buzz_meter_value (replicate 40 a) = 100 \<and> buzz_meter_value (replicate 1000 a) = 100"
proof -
  have "buzz_meter_value articles
          = max 5 (min 100 \<lfloor>100 * (of_nat (length articles) :: rat) / 40\<rfloor>)"
    by (simp only: buzz_value floor_count)
  moreover have "5 \<le> buzz_meter_value articles \<and> buzz_meter_value articles \<le> 100"
    by (simp add: buzz_value)
  moreover have "buzz_meter_value (replicate 0 a) = 5 \<and> buzz_meter_value (replicate 20 a) = 50
      \<and> buzz_meter_value (replicate 40 a) = 100 \<and> buzz_meter_value (replicate 1000 a) = 100"
    by (simp add: buzz_value)
  ultimately show ?thesis by blast
qed

section \<open>Sentiment labels\<close>

lemma label_of_iff:
  "label_of c = ''positive'' \<longleftrightarrow> lit_0_2 < c"
  "label_of c = ''negative'' \<longleftrightarrow> c < - lit_0_2"
  "label_of c = ''neutral'' \<longleftrightarrow> \<not> lit_0_2 < c \<and> \<not> c < - lit_0_2"
  by (auto simp add: label_of_def lit_0_2_value)

lemma label_of_0: "label_of 0 = ''neutral''"
  by (simp add: label_of_iff lit_0_2_value)

lemma sentiment_loop_label:
  assumes "r \<in> set (sentiment_loop sia texts results)"
  shows "r \<in> set results \<or> s_label r = label_of (s_compound r)"
  using assms
proof (induction texts arbitrary: results)
  case Nil
  then show ?case by simp
next
  case (Cons t ts)
  show ?case
  proof (cases sia)
    case None
    with Cons.prems have "r \<in> set (sentiment_loop sia ts
        (results @ [\<lparr>s_compound = 0, s_label = ''neutral'', s_rest = None\<rparr>]))"
      by simp
    from Cons.IH[OF this] show ?thesis by (auto simp add: label_of_0)
  next
    case (Some f)
    with Cons.prems have "r \<in> set (sentiment_loop sia ts
        (results @ [\<lparr>s_compound = compound (f (or_str (Some t) [])),
                     s_label = label_of (compound (f (or_str (Some t) []))),
                     s_rest = Some (neg (f (or_str (Some t) [])), neu (f (or_str (Some t) [])),
                                    pos (f (or_str (Some t) [])))\<rparr>]))"
      by (simp add: Let_def)
    from Cons.IH[OF this] show ?thesis by auto
  qed
qed

text \<open>
  C2: in every result of \<open>analyze_sentiment_batch\<close> the label is \<open>positive\<close> exactly when
  the compound score is greater than the float 0.2, \<open>negative\<close> exactly when it is less than
  the float -0.2, and \<open>neutral\<close> otherwise; an analyzer score of exactly 0.2 or -0.2 is
  labelled \<open>neutral\<close>.
\<close>

theorem sentiment_label_thresholds:
  "(\<forall>r \<in> set (analyze_sentiment_batch cls texts).
      (s_label r = ''positive'' \<longleftrightarrow> lit_0_2 < s_compound r) \<and>
      (s_label r = ''negative'' \<longleftrightarrow> s_compound r < - lit_0_2) \<and>
      (s_label r = ''neutral'' \<longleftrightarrow> \<not> lit_0_2 < s_compound r \<and> \<not> s_compound r < - lit_0_2))
   \<and> label_of lit_0_2 = ''neutral'' \<and> label_of (- lit_0_2) = ''neutral''"
proof -
  have "s_label r = label_of (s_compound r)"
    if "r \<in> set (analyze_sentiment_batch cls texts)" for r
    using sentiment_loop_label[of r "init_vader cls" texts "[]"] that
    by (simp add: analyze_sentiment_batch_def)
  then show ?thesis by (simp add: label_of_iff lit_0_2_value)
qed

theorem sentiment_label_thresholds_witness:
  "\<lparr>s_compound = 1 / 2, s_label = ''positive'', s_rest = Some (0, 1, 0)\<rparr>
     \<in> set (analyze_sentiment_batch (Some (Inr (constant_analyzer (1 / 2)))) [''good news''])
   \<and> lit_0_2 < 1 / 2"
  using sentiment_label_thresholds [of "Some (Inr (constant_analyzer (1 / 2)))" "[''good news'']"]
  by (simp add: analyze_sentiment_batch_def init_vader_def constant_analyzer_def or_str_def
      label_of_def lit_0_2_value)

section \<open>The degraded sentiment mode\<close>

lemma sentiment_loop_None:
  "sentiment_loop None texts results
     = results @ replicate (length texts) \<lparr>s_compound = 0, s_label = ''neutral'', s_rest = None\<rparr>"
  by (induction texts arbitrary: results) (simp_all add: replicate_app_Cons_same)

text \<open>
  C8: without an analyzer (the class was not imported, or creating it raised),
  \<open>analyze_sentiment_batch\<close> on \<open>n\<close> texts returns \<open>n\<close> results, one per text in order, each
  with compound 0.0 and label \<open>neutral\<close>; it is a value, not an error.
\<close>

theorem sentiment_degraded_mode:
  "analyze_sentiment_batch None texts
     = map (\<lambda>t. \<lparr>s_compound = 0, s_label = ''neutral'', s_rest = None\<rparr>) texts
   \<and> analyze_sentiment_batch (Some (Inl e)) texts
     = map (\<lambda>t. \<lparr>s_compound = 0, s_label = ''neutral'', s_rest = None\<rparr>) texts
   \<and> length (analyze_sentiment_batch None texts) = length texts
   \<and> length (analyze_sentiment_batch (Some (Inl e)) texts) = length texts"
  by (simp add: analyze_sentiment_batch_def init_vader_def sentiment_loop_None map_replicate_const)

section \<open>The feed parser\<close>

text \<open>
  Each step of either loop leaves the list of articles as it is or appends one article
  whose title and link are not empty.
\<close>

lemma cap_ge_1: "1 \<le> cap m"
  by (simp add: cap_def)

lemma cap_id: "1 \<le> m \<Longrightarrow> cap m = m"
  by (simp add: cap_def or_int_def)

lemma xml_loop_step:
  "\<exists>acc'. (acc' = acc \<or> (\<exists>a. acc' = acc @ [a] \<and> title a \<noteq> [] \<and> link a \<noteq> []))
     \<and> xml_loop m (item # items) acc
         = (if cap m \<le> int (length acc') then acc' else xml_loop m items acc')"
proof (cases "strip (or_str (findtext ''title'' item) []) \<noteq> []
              \<and> strip (or_str (findtext ''link'' item) []) \<noteq> []")
  case True
  let ?a = "\<lparr>title = strip (or_str (findtext ''title'' item) []),
             link = strip (or_str (findtext ''link'' item) []),
             published = strip (or_str (findtext ''pubDate'' item) []),
             source = find_source item\<rparr>"
  have "xml_loop m (item # items) acc
          = (if cap m \<le> int (length (acc @ [?a])) then acc @ [?a] else xml_loop m items (acc @ [?a]))"
    using True by (simp add: Let_def)
  moreover have "title ?a \<noteq> [] \<and> link ?a \<noteq> []" using True by simp
  ultimately show ?thesis by blast
next
  case False
  then have "(if strip (or_str (findtext ''title'' item) []) \<noteq> []
                \<and> strip (or_str (findtext ''link'' item) []) \<noteq> [] then x else y) = y" for x y :: "article list"
    by (rule if_not_P)
  then have "xml_loop m (item # items) acc
          = (if cap m \<le> int (length acc) then acc else xml_loop m items acc)"
    by (simp add: Let_def)
  then show ?thesis by blast
qed


lemma xml_loop_length:
  "int (length acc) < cap m \<Longrightarrow> int (length (xml_loop m items acc)) \<le> cap m"
proof (induction items arbitrary: acc)
  case Nil
  then show ?case by simp
next
  case (Cons item items)
  obtain acc' where
    a: "acc' = acc \<or> (\<exists>a. acc' = acc @ [a] \<and> title a \<noteq> [] \<and> link a \<noteq> [])"
    and e: "xml_loop m (item # items) acc
              = (if cap m \<le> int (length acc') then acc' else xml_loop m items acc')"
    using xml_loop_step[of acc m item items] by blast
  from a Cons.prems have len: "int (length acc') \<le> cap m" by auto
  show ?case
  proof (cases "cap m \<le> int (length acc')")
    case True
    with e len show ?thesis by simp
  next
    case False
    then have "int (length acc') < cap m" by simp
    from Cons.IH[OF this] e False show ?thesis by simp
  qed
qed

lemma xml_loop_valid:
  "a \<in> set (xml_loop m items acc) \<Longrightarrow> a \<in> set acc \<or> (title a \<noteq> [] \<and> link a \<noteq> [])"
proof (induction items arbitrary: acc)
  case Nil
  then show ?case by simp
next
  case (Cons item items)
  obtain acc' where
    a: "acc' = acc \<or> (\<exists>b. acc' = acc @ [b] \<and> title b \<noteq> [] \<and> link b \<noteq> [])"
    and e: "xml_loop m (item # items) acc
              = (if cap m \<le> int (length acc') then acc' else xml_loop m items acc')"
    using xml_loop_step[of acc m item items] by blast
  have sub: "b \<in> set acc' \<Longrightarrow> b \<in> set acc \<or> (title b \<noteq> [] \<and> link b \<noteq> [])" for b
    using a by auto
  show ?case
  proof (cases "cap m \<le> int (length acc')")
    case True
    with e Cons.prems have "a \<in> set acc'" by simp
    then show ?thesis by (rule sub)
  next
    case False
    with e Cons.prems have "a \<in> set (xml_loop m items acc')" by simp
    from Cons.IH[OF this] sub show ?thesis by blast
  qed
qed

lemma entry_loop_step:
  "\<exists>acc'. (acc' = acc \<or> (\<exists>a. acc' = acc @ [a] \<and> title a \<noteq> [] \<and> link a \<noteq> []))
     \<and> entry_loop (e # es) acc = entry_loop es acc'"
proof (cases "strip (getattr (e_title e) []) \<noteq> [] \<and> strip (getattr (e_link e) []) \<noteq> []")
  case True
  let ?a = "\<lparr>title = strip (getattr (e_title e) []), link = strip (getattr (e_link e) []),
             published = strip (getattr (e_published e) []),
             source = strip (or_str (e_source_title e) [])\<rparr>"
  have "entry_loop (e # es) acc = entry_loop es (acc @ [?a])"
    using True by (simp add: Let_def)
  moreover have "title ?a \<noteq> [] \<and> link ?a \<noteq> []" using True by simp
  ultimately show ?thesis by blast
next
  case False
  then have "(if strip (getattr (e_title e) []) \<noteq> [] \<and> strip (getattr (e_link e) []) \<noteq> []
              then x else y) = y" for x y :: "article list"
    by (rule if_not_P)
  then have "entry_loop (e # es) acc = entry_loop es acc"
    by (simp add: Let_def)
  then show ?thesis by blast
qed

lemma entry_loop_length: "length (entry_loop es acc) \<le> length acc + length es"
proof (induction es arbitrary: acc)
  case Nil
  then show ?case by simp
next
  case (Cons e es)
  obtain acc' where
    a: "acc' = acc \<or> (\<exists>b. acc' = acc @ [b] \<and> title b \<noteq> [] \<and> link b \<noteq> [])"
    and s: "entry_loop (e # es) acc = entry_loop es acc'"
    using entry_loop_step[of acc e es] by blast
  from a have "length acc' \<le> length acc + 1" by auto
  with Cons.IH[of acc'] s show ?case by simp
qed

lemma entry_loop_valid:
  "a \<in> set (entry_loop es acc) \<Longrightarrow> a \<in> set acc \<or> (title a \<noteq> [] \<and> link a \<noteq> [])"
proof (induction es arbitrary: acc)
  case Nil
  then show ?case by simp
next
  case (Cons e es)
  obtain acc' where
    a: "acc' = acc \<or> (\<exists>b. acc' = acc @ [b] \<and> title b \<noteq> [] \<and> link b \<noteq> [])"
    and s: "entry_loop (e # es) acc = entry_loop es acc'"
    using entry_loop_step[of acc e es] by blast
  from s Cons.prems have "a \<in> set (entry_loop es acc')" by simp
  from Cons.IH[OF this] a show ?case by auto
qed

lemma slice_to_length: "0 \<le> k \<Longrightarrow> int (length (slice_to k xs)) \<le> k"
  by (simp add: slice_to_def)


lemma parse_feed_xml:
  "etree w x = Some items \<Longrightarrow> parse_feed w x m = finish (xml_loop m items [])"
  by (simp add: parse_feed_def)

lemma parse_feed_lib:
  "etree w x = None \<Longrightarrow> feedparser w x = Inr entries
     \<Longrightarrow> parse_feed w x m = finish (entry_loop (slice_to (cap m) entries) [])"
  by (simp add: parse_feed_def)

lemma parse_feed_error:
  "etree w x = None \<Longrightarrow> feedparser w x = Inl e2
     \<Longrightarrow> parse_feed w x m = ([], Some (''Parse error: '' @ e2))"
  by (simp add: parse_feed_def)

lemma parse_feed_cases:
  obtains (xml) items where "etree w x = Some items" "parse_feed w x m = finish (xml_loop m items [])"
  | (lib) entries where "etree w x = None" "feedparser w x = Inr entries"
      "parse_feed w x m = finish (entry_loop (slice_to (cap m) entries) [])"
  | (err) e2 where "etree w x = None" "feedparser w x = Inl e2"
      "parse_feed w x m = ([], Some (''Parse error: '' @ e2))"
proof (cases "etree w x")
  case None
  show ?thesis
  proof (cases "feedparser w x")
    case (Inl e2)
    from err[OF None Inl parse_feed_error[OF None Inl]] show ?thesis .
  next
    case (Inr entries)
    from lib[OF None Inr parse_feed_lib[OF None Inr]] show ?thesis .
  qed
next
  case (Some items)
  from xml[OF Some parse_feed_xml[OF Some]] show ?thesis .
qed

lemma fst_finish: "fst (finish xs) = xs"
  by (simp add: finish_def)

lemma snd_finish: "snd (finish xs) = None \<longleftrightarrow> xs \<noteq> []"
  by (simp add: finish_def)

lemma parse_feed_length: "int (length (fst (parse_feed w x m))) \<le> cap m"
proof (cases rule: parse_feed_cases[of w x m])
  case (xml items)
  have "int (length (xml_loop m items [])) \<le> cap m"
    using xml_loop_length[of "[]" m items] cap_ge_1[of m] by simp
  with xml show ?thesis by (simp add: fst_finish)
next
  case (lib entries)
  have "length (entry_loop (slice_to (cap m) entries) []) \<le> length (slice_to (cap m) entries)"
    using entry_loop_length[of "slice_to (cap m) entries" "[]"] by simp
  moreover have "int (length (slice_to (cap m) entries)) \<le> cap m"
    using slice_to_length[of "cap m" entries] cap_ge_1[of m] by simp
  ultimately show ?thesis using lib by (simp add: fst_finish)
next
  case (err e2)
  then show ?thesis using cap_ge_1[of m] by simp
qed

lemma parse_feed_valid:
  assumes "a \<in> set (fst (parse_feed w x m))"
  shows "title a \<noteq> [] \<and> link a \<noteq> []"
proof (cases rule: parse_feed_cases[of w x m])
  case (xml items)
  with assms have "a \<in> set (xml_loop m items [])" by (simp add: fst_finish)
  from xml_loop_valid[OF this] show ?thesis by simp
next
  case (lib entries)
  with assms have "a \<in> set (entry_loop (slice_to (cap m) entries) [])" by (simp add: fst_finish)
  from entry_loop_valid[OF this] show ?thesis by simp
next
  case (err e2)
  with assms show ?thesis by simp
qed

lemma parse_feed_pair: "snd (parse_feed w x m) = None \<longleftrightarrow> fst (parse_feed w x m) \<noteq> []"
  by (cases rule: parse_feed_cases[of w x m]) (simp_all add: fst_finish snd_finish)

lemma fetch_google_news_cases:
  obtains (http) e tr where
      "http_loop w (google_news_url q d r l) [0, 1, 2] None [] = (Inl e, tr)"
      "fetch_google_news w q d m r l = (([], Some (''HTTP error fetching RSS: '' @ str_err e)), tr)"
  | (body) x tr where
      "http_loop w (google_news_url q d r l) [0, 1, 2] None [] = (Inr x, tr)"
      "fetch_google_news w q d m r l = (parse_feed w x m, tr)"
proof (cases "http_loop w (google_news_url q d r l) [0, 1, 2] None []")
  case (Pair res tr)
  show ?thesis
  proof (cases res)
    case (Inl e)
    with Pair have "fetch_google_news w q d m r l
        = (([], Some (''HTTP error fetching RSS: '' @ str_err e)), tr)"
      by (simp add: fetch_google_news_def Let_def)
    with Pair Inl http show ?thesis by blast
  next
    case (Inr x)
    with Pair have "fetch_google_news w q d m r l = (parse_feed w x m, tr)"
      by (simp add: fetch_google_news_def Let_def)
    with Pair Inr body show ?thesis by blast
  qed
qed

lemma fetch_google_news_pair:
  "snd (fst (fetch_google_news w q d m r l)) = None
     \<longleftrightarrow> fst (fst (fetch_google_news w q d m r l)) \<noteq> []"
  by (cases rule: fetch_google_news_cases[of w q d r l m]) (simp_all add: parse_feed_pair)

lemma fetch_news_articles:
  "fst (fetch_news w q d m) = fst (fst (fetch_google_news w q d m ''US'' ''en''))"
  by (simp add: fetch_news_def split: prod.splits)

lemma fetch_google_news_length:
  "int (length (fst (fst (fetch_google_news w q d m r l)))) \<le> cap m"
  using cap_ge_1[of m]
  by (cases rule: fetch_google_news_cases[of w q d r l m]) (simp_all add: parse_feed_length)

lemma fetch_google_news_valid:
  assumes "a \<in> set (fst (fst (fetch_google_news w q d m r l)))"
  shows "title a \<noteq> [] \<and> link a \<noteq> []"
  using assms
  by (cases rule: fetch_google_news_cases[of w q d r l m]) (simp_all add: parse_feed_valid)

lemma http_loop_3:
  "http_loop w url [0, 1, 2] None [] =
     (case http_get w url 0 of
        Inr x \<Rightarrow> (Inr x, [HttpGet url UA 10])
      | Inl e0 \<Rightarrow>
          (case http_get w url 1 of
             Inr x \<Rightarrow> (Inr x, [HttpGet url UA 10, Sleep (1 / 2), HttpGet url UA 10])
           | Inl e1 \<Rightarrow>
               (case http_get w url 2 of
                  Inr x \<Rightarrow>
                    (Inr x, [HttpGet url UA 10, Sleep (1 / 2), HttpGet url UA 10, Sleep 1,
                             HttpGet url UA 10])
                | Inl e2 \<Rightarrow>
                    (Inl (Some e2),
                     [HttpGet url UA 10, Sleep (1 / 2), HttpGet url UA 10, Sleep 1,
                      HttpGet url UA 10, Sleep (3 / 2)]))))"
  by (simp split: sum.splits)

lemma fetch_trace:
  "snd (fetch_google_news w q d m r l) = snd (http_loop w (google_news_url q d r l) [0, 1, 2] None [])"
  by (cases rule: fetch_google_news_cases[of w q d r l m]) simp_all

subsection \<open>The sample feeds\<close>

lemma online_loop:
  "http_loop online url [0, 1, 2] None [] = (Inr ''<rss/>'', [HttpGet url UA 10])"
  by (simp add: online_def)

lemma barren_loop:
  "http_loop barren url [0, 1, 2] None [] = (Inr ''<rss/>'', [HttpGet url UA 10])"
  by (simp add: barren_def)

lemma tolerant_loop:
  "http_loop tolerant url [0, 1, 2] None [] = (Inr ''<rss>'', [HttpGet url UA 10])"
  by (simp add: tolerant_def)

lemma broken_loop:
  "http_loop broken url [0, 1, 2] None []
     = (Inr ''<rss>'', [HttpGet url UA 10, Sleep (1 / 2), HttpGet url UA 10])"
  by (simp add: broken_def)

lemma sample_xml: "xml_loop 2 sample_items [] =
  [\<lparr>title = ''Model released'', link = ''https://a.example/1'',
    published = ''Mon, 01 Jan 2024'', source = ''Wire''\<rparr>,
   \<lparr>title = ''Chips'', link = ''https://b.example/2'', published = [], source = []\<rparr>]"
  by code_simp

lemma sample_lib: "entry_loop (slice_to (cap 2) sample_entries) [] =
  [\<lparr>title = ''Model released'', link = ''https://a.example/1'',
    published = ''Mon, 01 Jan 2024'', source = ''Wire''\<rparr>]"
  by code_simp

lemma barren_xml: "xml_loop 2 [[(''title'', Some ''No link here'')]] [] = []"
  by code_simp

lemma online_news: "length (fst (fetch_news online ''AI'' 7 2)) = 2"
  using online_loop[of "google_news_url ''AI'' 7 ''US'' ''en''"]
  by (simp add: fetch_news_articles fetch_google_news_def Let_def parse_feed_def finish_def
      online_def sample_xml)

subsection \<open>Bound and validity of the result\<close>

text \<open>
  C1: for every \<open>fetch_news(query, days, max_items)\<close> with \<open>days \<ge> 1\<close> and
  \<open>max_items \<ge> 1\<close>, whatever the network and the parsers do, the returned list has at
  most \<open>max_items\<close> articles, and every one of them has a non-empty title and a
  non-empty link.
\<close>

theorem fetch_news_bounded:
  assumes "1 \<le> days" "1 \<le> max_items"
  shows "int (length (fst (fetch_news w query days max_items))) \<le> max_items
         \<and> (\<forall>a \<in> set (fst (fetch_news w query days max_items)). title a \<noteq> [] \<and> link a \<noteq> [])"
  using fetch_google_news_length[of w query days max_items "''US''" "''en''"]
    fetch_google_news_valid[of _ w query days max_items "''US''" "''en''"]
    cap_id[OF assms(2)]
  by (simp add: fetch_news_articles)

theorem fetch_news_bounded_witness:
  "(1::int) \<le> 7 \<and> (1::int) \<le> 2 \<and> length (fst (fetch_news online ''AI'' 7 2)) = 2"
  using fetch_news_bounded [where days = 7 and max_items = 2 and w = online and query = "''AI''"]
  by (simp add: online_news)

subsection \<open>The outcomes of parsing\<close>

text \<open>
  C6: once the body \<open>x\<close> has been fetched, a failure of the XML strategy hands over to
  the feed library instead of raising; a failure of the feed library as well gives the
  result "Parse error" with an empty list; and either strategy ending with no article
  gives the result "no items", a message different from every parse error, never the
  pair of an empty list and no error.
\<close>

theorem parse_outcomes:
  assumes "http_loop w (google_news_url q d r l) [0, 1, 2] None [] = (Inr x, tr)"
  shows
    "(etree w x = Some items \<longrightarrow> xml_loop m items [] \<noteq> [] \<longrightarrow>
        fst (fetch_google_news w q d m r l) = (xml_loop m items [], None))
     \<and> (etree w x = Some items \<longrightarrow> xml_loop m items [] = [] \<longrightarrow>
        fst (fetch_google_news w q d m r l) = ([], Some no_items_msg))
     \<and> (etree w x = None \<longrightarrow> feedparser w x = Inr entries \<longrightarrow>
        entry_loop (slice_to (cap m) entries) [] \<noteq> [] \<longrightarrow>
        fst (fetch_google_news w q d m r l) = (entry_loop (slice_to (cap m) entries) [], None))
     \<and> (etree w x = None \<longrightarrow> feedparser w x = Inr entries \<longrightarrow>
        entry_loop (slice_to (cap m) entries) [] = [] \<longrightarrow>
        fst (fetch_google_news w q d m r l) = ([], Some no_items_msg))
     \<and> (etree w x = None \<longrightarrow> feedparser w x = Inl e2 \<longrightarrow>
        fst (fetch_google_news w q d m r l) = ([], Some (''Parse error: '' @ e2)))
     \<and> no_items_msg \<noteq> ''Parse error: '' @ e2"
proof -
  have f: "fst (fetch_google_news w q d m r l) = parse_feed w x m"
    using assms by (simp add: fetch_google_news_def Let_def)
  have "no_items_msg \<noteq> ''Parse error: '' @ e2" by (simp add: no_items_msg_def)
  then show ?thesis
    unfolding f
    by (simp add: parse_feed_def finish_def)
qed

theorem parse_outcomes_witness:
  "fst (fetch_google_news online ''AI'' 7 2 ''US'' ''en'') = (xml_loop 2 sample_items [], None)
   \<and> fst (fetch_google_news barren ''AI'' 7 2 ''US'' ''en'') = ([], Some no_items_msg)
   \<and> fst (fetch_google_news tolerant ''AI'' 7 2 ''US'' ''en'')
       = (entry_loop (slice_to (cap 2) sample_entries) [], None)
   \<and> fst (fetch_google_news broken ''AI'' 7 2 ''US'' ''en'') = ([], Some ''Parse error: not a feed'')"
proof -
  have "etree online ''<rss/>'' = Some sample_items" by (simp add: online_def)
  moreover have "xml_loop 2 sample_items [] \<noteq> []" by (simp add: sample_xml)
  ultimately have a: "fst (fetch_google_news online ''AI'' 7 2 ''US'' ''en'')
      = (xml_loop 2 sample_items [], None)"
    using parse_outcomes [where q = "''AI''" and d = 7 and r = "''US''" and l = "''en''" and m = 2
        and items = sample_items and entries = "[]" and ?e2.0 = "[]", OF online_loop]
    by blast
  have "etree barren ''<rss/>'' = Some [[(''title'', Some ''No link here'')]]"
    by (simp add: barren_def)
  then have b: "fst (fetch_google_news barren ''AI'' 7 2 ''US'' ''en'') = ([], Some no_items_msg)"
    using parse_outcomes [where q = "''AI''" and d = 7 and r = "''US''" and l = "''en''" and m = 2
        and items = "[[(''title'', Some ''No link here'')]]" and entries = "[]" and ?e2.0 = "[]",
        OF barren_loop] barren_xml
    by blast
  have "etree tolerant ''<rss>'' = None" "feedparser tolerant ''<rss>'' = Inr sample_entries"
    by (simp_all add: tolerant_def)
  moreover have "entry_loop (slice_to (cap 2) sample_entries) [] \<noteq> []" by (simp add: sample_lib)
  ultimately have c: "fst (fetch_google_news tolerant ''AI'' 7 2 ''US'' ''en'')
       = (entry_loop (slice_to (cap 2) sample_entries) [], None)"
    using parse_outcomes [where q = "''AI''" and d = 7 and r = "''US''" and l = "''en''" and m = 2
        and items = "[]" and entries = sample_entries and ?e2.0 = "[]", OF tolerant_loop]
    by blast
  have "etree broken ''<rss>'' = None" "feedparser broken ''<rss>'' = Inl ''not a feed''"
    by (simp_all add: broken_def)
  then have d: "fst (fetch_google_news broken ''AI'' 7 2 ''US'' ''en'')
      = ([], Some (''Parse error: '' @ ''not a feed''))"
    using parse_outcomes [where q = "''AI''" and d = 7 and r = "''US''" and l = "''en''" and m = 2
        and items = "[]" and entries = "[]" and ?e2.0 = "''not a feed''", OF broken_loop]
    by blast
  from a b c d show ?thesis by simp
qed

subsection \<open>The retries\<close>

text \<open>
  C7: \<open>fetch_google_news\<close> issues one, two or three GET requests, each for the built URL
  with the fixed browser User-Agent and timeout 10; the k-th failed attempt is followed
  by a sleep of k times 0.5; when all three attempts fail the result is the pair of an
  empty list and "HTTP error fetching RSS: " followed by the description of the third
  error.  The function has no other outcome than such a pair: every exception is caught.
\<close>

theorem http_retry_policy:
  "snd (fetch_google_news w q d m r l) \<in>
     {[HttpGet (google_news_url q d r l) UA 10],
      [HttpGet (google_news_url q d r l) UA 10, Sleep (1 / 2),
       HttpGet (google_news_url q d r l) UA 10],
      [HttpGet (google_news_url q d r l) UA 10, Sleep (1 / 2),
       HttpGet (google_news_url q d r l) UA 10, Sleep 1,
       HttpGet (google_news_url q d r l) UA 10],
      [HttpGet (google_news_url q d r l) UA 10, Sleep (1 / 2),
       HttpGet (google_news_url q d r l) UA 10, Sleep 1,
       HttpGet (google_news_url q d r l) UA 10, Sleep (3 / 2)]}
   \<and> (http_get w (google_news_url q d r l) 0 = Inl e0 \<longrightarrow>
        http_get w (google_news_url q d r l) 1 = Inl e1 \<longrightarrow>
        http_get w (google_news_url q d r l) 2 = Inl e2 \<longrightarrow>
        fetch_google_news w q d m r l =
          (([], Some (''HTTP error fetching RSS: '' @ e2)),
           [HttpGet (google_news_url q d r l) UA 10, Sleep (1 / 2),
            HttpGet (google_news_url q d r l) UA 10, Sleep 1,
            HttpGet (google_news_url q d r l) UA 10, Sleep (3 / 2)]))
   \<and> starts_with ''Mozilla/5.0'' UA"
proof -
  have a: "snd (fetch_google_news w q d m r l) \<in>
     {[HttpGet (google_news_url q d r l) UA 10],
      [HttpGet (google_news_url q d r l) UA 10, Sleep (1 / 2),
       HttpGet (google_news_url q d r l) UA 10],
      [HttpGet (google_news_url q d r l) UA 10, Sleep (1 / 2),
       HttpGet (google_news_url q d r l) UA 10, Sleep 1,
       HttpGet (google_news_url q d r l) UA 10],
      [HttpGet (google_news_url q d r l) UA 10, Sleep (1 / 2),
       HttpGet (google_news_url q d r l) UA 10, Sleep 1,
       HttpGet (google_news_url q d r l) UA 10, Sleep (3 / 2)]}"
    unfolding fetch_trace http_loop_3 by (simp split: sum.splits)
  have b: "fetch_google_news w q d m r l =
          (([], Some (''HTTP error fetching RSS: '' @ e2)),
           [HttpGet (google_news_url q d r l) UA 10, Sleep (1 / 2),
            HttpGet (google_news_url q d r l) UA 10, Sleep 1,
            HttpGet (google_news_url q d r l) UA 10, Sleep (3 / 2)])"
    if "http_get w (google_news_url q d r l) 0 = Inl e0"
      "http_get w (google_news_url q d r l) 1 = Inl e1"
      "http_get w (google_news_url q d r l) 2 = Inl e2"
    using that by (simp add: fetch_google_news_def Let_def http_loop_3 str_err_def)
  have c: "starts_with ''Mozilla/5.0'' UA" by (simp add: UA_def)
  from a b c show ?thesis by blast
qed

theorem http_retry_policy_witness:
  "http_get offline (google_news_url ''AI'' 7 ''US'' ''en'') 0 = Inl ''timed out''
   \<and> http_get offline (google_news_url ''AI'' 7 ''US'' ''en'') 1 = Inl ''timed out''
   \<and> http_get offline (google_news_url ''AI'' 7 ''US'' ''en'') 2 = Inl ''connection reset''
   \<and> fst (fetch_google_news offline ''AI'' 7 15 ''US'' ''en'')
       = ([], Some ''HTTP error fetching RSS: connection reset'')
   \<and> length (snd (fetch_google_news offline ''AI'' 7 15 ''US'' ''en'')) = 6"
  using http_retry_policy [where w = offline and q = "''AI''" and d = 7 and m = 15 and r = "''US''"
      and l = "''en''" and ?e0.0 = "''timed out''" and ?e1.0 = "''timed out''"
      and ?e2.0 = "''connection reset''"]
  by (simp add: offline_def)

subsection \<open>The cap of the feed library strategy\<close>

text \<open>
  C9 fails for the feed library strategy.  On the same feed of four entries, the first
  without a link, and a cap of two, the XML strategy skips the first entry and keeps the
  next two, while the feed library strategy cuts the list to its first two entries
  before it skips the first: the skipped entry has used up one of the two places.
\<close>

theorem fallback_cap_counts_skipped_entries:
  "fst (parse_feed tolerant ''<rss>'' 2) =
     [\<lparr>title = ''Model released'', link = ''https://a.example/1'',
       published = ''Mon, 01 Jan 2024'', source = ''Wire''\<rparr>]
   \<and> fst (parse_feed online ''<rss/>'' 2) =
     [\<lparr>title = ''Model released'', link = ''https://a.example/1'',
       published = ''Mon, 01 Jan 2024'', source = ''Wire''\<rparr>,
      \<lparr>title = ''Chips'', link = ''https://b.example/2'', published = [], source = []\<rparr>]"
  by (simp add: parse_feed_def finish_def tolerant_def online_def sample_xml sample_lib)

subsection \<open>Articles and error exclude each other\<close>

text \<open>
  C10: in the pair \<open>(articles, error)\<close> that \<open>fetch_google_news\<close> returns, the error is
  \<open>None\<close> if and only if the list of articles is not empty; so an error never comes with
  articles.
\<close>

theorem fetch_result_error_iff:
  "snd (fst (fetch_google_news w q d m r l)) = None
     \<longleftrightarrow> fst (fst (fetch_google_news w q d m r l)) \<noteq> []"
  by (rule fetch_google_news_pair)

section \<open>The feed URL\<close>

text \<open>
  The number of decimal digits decides whether formatting the day count raises; the
  recursive equation of \<open>dec_digits\<close> is applied by hand.
\<close>

declare dec_digits.simps [simp del]

lemma effective_days:
  "max 1 (or_int d 7) = (if d = 0 then 7 else if d < 0 then 1 else d)"
  by (simp add: or_int_def)

lemma dec_digits_length_ge: "10 ^ k \<le> n \<Longrightarrow> k < length (dec_digits n)"
proof (induction k arbitrary: n)
  case 0
  show ?case by (subst dec_digits.simps) simp
next
  case (Suc k)
  from Suc.prems have p: "10 * 10 ^ k \<le> n" by simp
  have "(1::nat) \<le> 10 ^ k" by simp
  with p have big: "10 \<le> n" by linarith
  from Suc.prems have "10 ^ k \<le> n div 10" by (simp add: less_eq_div_iff_mult_less_eq)
  from Suc.IH[OF this] big show ?case by (subst dec_digits.simps) simp
qed

lemma dec_digits_length_le: "n < 10 ^ Suc k \<Longrightarrow> length (dec_digits n) \<le> Suc k"
proof (induction k arbitrary: n)
  case 0
  then show ?case by (subst dec_digits.simps) simp
next
  case (Suc k)
  show ?case
  proof (cases "n < 10")
    case True
    then show ?thesis by (subst dec_digits.simps) simp
  next
    case False
    from Suc.prems have "n div 10 < 10 ^ Suc k" by (simp add: div_less_iff_less_mult)
    from Suc.IH[OF this] False show ?thesis by (subst dec_digits.simps) simp
  qed
qed

lemma max_digits_pos: "int_max_str_digits = Suc (int_max_str_digits - 1)"
  by (simp add: int_max_str_digits_def)

lemma u_str_int_ok:
  assumes "0 \<le> i" "i < 10 ^ int_max_str_digits"
  shows "u_str_int i = Inr (ustr (str_int i))"
proof -
  have "int (nat i) < int (10 ^ int_max_str_digits)" using assms by simp
  then have "nat i < 10 ^ int_max_str_digits" by (simp only: of_nat_less_iff)
  then have "nat i < 10 ^ Suc (int_max_str_digits - 1)" using max_digits_pos by simp
  from dec_digits_length_le[OF this] have "length (dec_digits (nat i)) \<le> int_max_str_digits"
    using max_digits_pos by simp
  then show ?thesis using assms(1) by (simp add: u_str_int_def)
qed

lemma u_str_int_big:
  assumes "10 ^ int_max_str_digits \<le> i"
  shows "u_str_int i = Inl ValueError"
proof -
  have pos: "0 \<le> i" using assms zero_le_power[of "10::int" int_max_str_digits] by linarith
  have "int (10 ^ int_max_str_digits) \<le> int (nat i)" using assms pos by simp
  then have "10 ^ int_max_str_digits \<le> nat i" by (simp only: of_nat_le_iff)
  from dec_digits_length_ge[OF this] show ?thesis using pos by (simp add: u_str_int_def)
qed

lemma seven_small: "(7::int) < 10 ^ int_max_str_digits"
proof -
  have "(10::int) ^ 1 \<le> 10 ^ int_max_str_digits"
    by (rule power_increasing) (simp_all add: int_max_str_digits_def)
  then show ?thesis by simp
qed

lemma one_small: "(1::int) < 10 ^ int_max_str_digits"
  using seven_small by simp


subsection \<open>Stripping keeps the surrogates\<close>

lemma surrogate_not_space: "surrogate c \<Longrightarrow> \<not> u_isspace c"
  by (simp add: surrogate_def u_isspace_def)

lemma list_ex_dropWhile:
  "(\<And>x. P x \<Longrightarrow> \<not> Q x) \<Longrightarrow> list_ex P (dropWhile Q xs) = list_ex P xs"
  by (induction xs) auto

lemma surrogate_strip: "list_ex surrogate (u_strip s) = list_ex surrogate s"
  by (simp add: u_strip_def list_ex_rev list_ex_dropWhile surrogate_not_space)

lemma code_point_strip: "list_all code_point s \<Longrightarrow> list_all code_point (u_strip s)"
  using set_dropWhileD[of _ u_isspace "rev (dropWhile u_isspace s)"]
    set_dropWhileD[of _ u_isspace s]
  by (auto simp add: u_strip_def list_all_iff)

subsection \<open>The encoded query is a query string\<close>

lemma query_string_append:
  "query_string xs \<Longrightarrow> query_string ys \<Longrightarrow> query_string (xs @ ys)"
proof (induction xs rule: query_string.induct)
  case 1
  then show ?case by simp
next
  case (2 c cs)
  show ?case
  proof (cases "c = 37")
    case True
    with "2.prems"(1) obtain a b rest where cs: "cs = a # b # rest"
      and h: "hex_code a" "hex_code b" "query_string rest"
      by (auto split: list.splits)
    from "2.IH"(1)[OF True cs refl h(3) "2.prems"(2)] h True cs show ?thesis by simp
  next
    case False
    with "2.prems"(1) have "query_code c" "query_string cs" by simp_all
    with "2.IH"(2)[OF False] "2.prems"(2) False show ?thesis by simp
  qed
qed

lemma query_string_concat:
  "(\<And>x. x \<in> set xss \<Longrightarrow> query_string x) \<Longrightarrow> query_string (concat xss)"
  by (induction xss) (simp_all add: query_string_append)

lemma query_string_plain: "list_all query_code xs \<Longrightarrow> query_string xs"
proof (induction xs)
  case Nil
  then show ?case by simp
next
  case (Cons c cs)
  then have "query_code c" by simp
  then have "c \<noteq> 37" by (auto simp add: query_code_def safe_code_def sub_delim_def)
  with Cons show ?case by simp
qed

lemma hex_digit_code: "d < 16 \<Longrightarrow> hex_code (of_char (hex_digit d))"
  by (simp add: hex_digit_def hex_code_def)

lemma percent_query_string: "b < 256 \<Longrightarrow> query_string (ustr (percent b))"
proof -
  assume b: "b < 256"
  then have "b div 16 < 16" by simp
  moreover have "b mod 16 < 16" by simp
  ultimately show ?thesis
    using hex_digit_code[of "b div 16"] hex_digit_code[of "b mod 16"]
    by (simp add: percent_def ustr_def)
qed

lemma quote_byte_query_string: "b < 256 \<Longrightarrow> query_string (quote_byte b)"
  by (auto simp add: quote_byte_def percent_query_string query_code_def safe_code_def)

lemma utf8_encode_bytes:
  assumes "code_point c" "b \<in> set (utf8_encode c)"
  shows "b < 256"
proof -
  have c: "c < 1114112" using assms(1) by (simp add: code_point_def)
  have m: "c mod 64 < 64" "c div 64 mod 64 < 64" "c div 4096 mod 64 < 64" by simp_all
  have d1: "c < 2048 \<Longrightarrow> c div 64 < 32" by (intro less_mult_imp_div_less) simp
  have d2: "c < 65536 \<Longrightarrow> c div 4096 < 16" by (intro less_mult_imp_div_less) simp
  have d3: "c div 262144 < 5" using c by (intro less_mult_imp_div_less) simp
  show ?thesis
    using assms(2) m d1 d2 d3
    by (auto simp add: utf8_encode_def split: if_splits)
qed

lemma quote_code_query_string: "code_point c \<Longrightarrow> query_string (quote_code c)"
proof (cases "c = 32")
  case True
  then show ?thesis by (simp add: quote_code_def ustr_def query_code_def sub_delim_def)
next
  case False
  assume "code_point c"
  then have "query_string (concat (map quote_byte (utf8_encode c)))"
    by (intro query_string_concat) (auto simp add: quote_byte_query_string utf8_encode_bytes)
  with False show ?thesis by (simp add: quote_code_def)
qed

lemma quote_codes_query_string: "list_all code_point s \<Longrightarrow> query_string (quote_codes s)"
  unfolding quote_codes_def
  by (intro query_string_concat) (auto simp add: list_all_iff quote_code_query_string)

lemma dec_digits_codes: "c \<in> set (dec_digits n) \<Longrightarrow> 48 \<le> (of_char c :: nat) \<and> (of_char c :: nat) \<le> 57"
proof (induction n arbitrary: c rule: dec_digits.induct)
  case (1 n)
  show ?case
  proof (cases "n < 10")
    case True
    with "1.prems" have "c = digit_char n" by (subst (asm) dec_digits.simps) simp
    with True show ?thesis by (simp add: digit_char_def)
  next
    case False
    with "1.prems" have "c \<in> set (dec_digits (n div 10)) \<or> c = digit_char (n mod 10)"
      by (subst (asm) dec_digits.simps) auto
    then show ?thesis
    proof
      assume "c \<in> set (dec_digits (n div 10))"
      from "1.IH"[OF False this] show ?thesis .
    next
      assume "c = digit_char (n mod 10)"
      moreover have "n mod 10 < 10" by simp
      ultimately show ?thesis by (simp add: digit_char_def)
    qed
  qed
qed

lemma str_int_query_string: "0 \<le> i \<Longrightarrow> query_string (ustr (str_int i))"
proof -
  assume "0 \<le> i"
  then have "list_all query_code (ustr (str_int i))"
    using dec_digits_codes[of _ "nat i"]
    by (auto simp add: str_int_def ustr_def list_all_iff query_code_def safe_code_def)
  then show ?thesis by (rule query_string_plain)
qed

lemma safe_query_string: "list_all safe_code xs \<Longrightarrow> query_string xs"
  by (rule query_string_plain) (auto simp add: list_all_iff query_code_def)

lemma well_formed_urlI: "query_string rest \<Longrightarrow> well_formed_url (url_base @ rest)"
  by (simp add: well_formed_url_def)


subsection \<open>What the builder returns\<close>

lemma days_small:
  "d < 10 ^ int_max_str_digits \<Longrightarrow> max 1 (or_int d 7) < 10 ^ int_max_str_digits"
  using seven_small one_small by (auto simp add: effective_days)

lemma days_big: "10 ^ int_max_str_digits \<le> d \<Longrightarrow> max 1 (or_int d 7) = d"
  using one_small by (auto simp add: effective_days)

lemma full_unicode_error:
  "list_ex surrogate query
     \<Longrightarrow> google_news_url_full query days_back region lang = Inl UnicodeEncodeError"
proof -
  assume s: "list_ex surrogate query"
  then have "query \<noteq> []" by auto
  moreover from s have "u_quote_plus (u_strip query) = Inl UnicodeEncodeError"
    by (simp add: u_quote_plus_def surrogate_strip)
  ultimately show ?thesis by (simp add: google_news_url_full_def)
qed

lemma full_query:
  "\<not> list_ex surrogate query
     \<Longrightarrow> (if query \<noteq> [] then u_quote_plus (u_strip query) else Inr (ustr ''AI''))
         = Inr (if query = [] then ustr ''AI'' else quote_codes (u_strip query))"
  by (simp add: u_quote_plus_def surrogate_strip)

lemma full_value_error:
  assumes "\<not> list_ex surrogate query" "10 ^ int_max_str_digits \<le> days_back"
  shows "google_news_url_full query days_back region lang = Inl ValueError"
  unfolding google_news_url_full_def full_query[OF assms(1)]
  using u_str_int_big[OF assms(2)] days_big[OF assms(2)] by (simp add: Let_def)

lemma full_ok:
  assumes "\<not> list_ex surrogate query" "days_back < 10 ^ int_max_str_digits"
  shows "google_news_url_full query days_back region lang
     = Inr (url_base @ ustr ''q=''
            @ (if query = [] then ustr ''AI'' else quote_codes (u_strip query))
            @ ustr ''+when:''
            @ ustr (str_int (if days_back = 0 then 7 else if days_back < 0 then 1 else days_back))
            @ ustr ''d&hl='' @ lang @ ustr ''-'' @ region @ ustr ''&gl='' @ region
            @ ustr ''&ceid='' @ region @ ustr '':'' @ lang)"
proof -
  have "0 \<le> max 1 (or_int days_back 7)" by simp
  from u_str_int_ok[OF this days_small[OF assms(2)]]
  have "u_str_int (max 1 (or_int days_back 7))
          = Inr (ustr (str_int (if days_back = 0 then 7 else if days_back < 0 then 1 else days_back)))"
    by (simp only: effective_days)
  then show ?thesis
    unfolding google_news_url_full_def full_query[OF assms(1)]
    by (simp add: Let_def)
qed

lemma encoded_query_string:
  assumes "list_all code_point query"
  shows "query_string (if query = [] then ustr ''AI'' else quote_codes (u_strip query))"
proof (cases "query = []")
  case True
  have "query_string (ustr ''AI'')" by code_simp
  with True show ?thesis by simp
next
  case False
  with quote_codes_query_string[OF code_point_strip[OF assms]] show ?thesis by simp
qed

lemma literal_query_strings:
  "query_string (ustr ''q='')" "query_string (ustr ''+when:'')" "query_string (ustr ''d&hl='')"
  "query_string (ustr ''-'')" "query_string (ustr ''&gl='')" "query_string (ustr ''&ceid='')"
  "query_string (ustr '':'')"
  by code_simp+

lemma full_well_formed:
  assumes "list_all code_point query" "list_all safe_code region" "list_all safe_code lang"
  shows "well_formed_url
     (url_base @ ustr ''q=''
      @ (if query = [] then ustr ''AI'' else quote_codes (u_strip query))
      @ ustr ''+when:''
      @ ustr (str_int (if days_back = 0 then 7 else if days_back < 0 then 1 else days_back))
      @ ustr ''d&hl='' @ lang @ ustr ''-'' @ region @ ustr ''&gl='' @ region
      @ ustr ''&ceid='' @ region @ ustr '':'' @ lang)"
proof -
  have d: "query_string
      (ustr (str_int (if days_back = 0 then 7 else if days_back < 0 then 1 else days_back)))"
    by (rule str_int_query_string) simp
  note r = safe_query_string[OF assms(2)] and l = safe_query_string[OF assms(3)]
    and e = encoded_query_string[OF assms(1)]
  show ?thesis
    by (intro well_formed_urlI query_string_append literal_query_strings d r l e)
qed

subsection \<open>Agreement with the builder on 8-bit strings\<close>

lemma of_char_less_256: "(of_char c :: nat) < 256"
proof -
  have "(of_char c :: nat) mod 256 < 256" by simp
  then show ?thesis by (simp only: of_char_mod_256)
qed

lemma u_isspace_small:
  "n < 256 \<Longrightarrow>
     u_isspace n = ((9 \<le> n \<and> n \<le> 13) \<or> (28 \<le> n \<and> n \<le> 32) \<or> n = 133 \<or> n = 160)"
  by (auto simp add: u_isspace_def)

lemma u_isspace_of_char: "u_isspace (of_char c) = isspace c"
  by (simp add: u_isspace_small[OF of_char_less_256] isspace_def Let_def)

lemma not_surrogate_small: "n < 256 \<Longrightarrow> \<not> surrogate n"
  by (simp add: surrogate_def)

lemma not_surrogate_of_char: "\<not> surrogate (of_char c)"
  by (rule not_surrogate_small[OF of_char_less_256])

lemma ustr_no_surrogate: "\<not> list_ex surrogate (ustr s)"
  by (simp add: list_ex_iff ustr_def not_surrogate_of_char)

lemma dropWhile_ustr: "dropWhile u_isspace (map of_char s) = map of_char (dropWhile isspace s)"
  by (induction s) (simp_all add: u_isspace_of_char)

lemma ustr_strip: "u_strip (ustr s) = ustr (strip s)"
  by (simp add: u_strip_def strip_def ustr_def dropWhile_ustr rev_map)

lemma safe_code_of_char: "safe_code (of_char c) = always_safe c"
  by (simp add: safe_code_def always_safe_def Let_def)

lemma utf8_encode_small:
  "n < 256 \<Longrightarrow> utf8_encode n = (if n < 128 then [n] else [192 + n div 64, 128 + n mod 64])"
  by (simp add: utf8_encode_def)

lemma utf8_encode_of_char: "utf8_encode (of_char c) = utf8 c"
  by (simp add: utf8_encode_small[OF of_char_less_256] utf8_def Let_def)

lemma of_char_space: "(of_char c = (32::nat)) = (c = CHR '' '')"
proof -
  have "(of_char (CHR '' '') :: nat) = 32" by simp
  then show ?thesis by (metis of_char_eq_iff)
qed

lemma quote_code_of_char: "quote_code (of_char c) = ustr (quote_char c)"
proof (cases "(of_char c :: nat) < 128")
  case True
  then have u: "utf8 c = [of_char c]" by (simp add: utf8_def Let_def)
  show ?thesis
    by (simp add: quote_code_def quote_char_def utf8_encode_of_char u quote_byte_def
        safe_code_of_char of_char_space ustr_def)
next
  case False
  then have u: "utf8 c = [192 + of_char c div 64, 128 + of_char c mod 64]"
    by (simp add: utf8_def Let_def)
  have n: "\<not> always_safe c" using False by (auto simp add: always_safe_def Let_def)
  have s: "\<not> safe_code (192 + (of_char c :: nat) div 64)" "\<not> safe_code (128 + (of_char c :: nat) mod 64)"
    by (auto simp add: safe_code_def)
  have sp: "c \<noteq> CHR '' ''" using False of_char_space[of c] by auto
  show ?thesis
    using sp by (simp add: quote_code_def quote_char_def utf8_encode_of_char u quote_byte_def
        n s of_char_space ustr_def)
qed

lemma quote_codes_ustr: "quote_codes (ustr s) = ustr (quote_plus s)"
  by (induction s) (simp_all add: quote_codes_def quote_plus_def ustr_def quote_code_of_char[unfolded ustr_def])

lemma google_news_url_agrees:
  assumes "days_back < 10 ^ int_max_str_digits"
  shows "google_news_url_full (ustr query) days_back (ustr region) (ustr lang)
           = Inr (ustr (google_news_url query days_back region lang))"
proof -
  have e: "(if ustr query = [] then ustr ''AI'' else quote_codes (u_strip (ustr query)))
             = ustr (if query \<noteq> [] then quote_plus (strip query) else ''AI'')"
    by (simp add: ustr_strip quote_codes_ustr) (simp add: ustr_def)
  show ?thesis
    unfolding full_ok[OF ustr_no_surrogate assms] e
    by (simp add: google_news_url_def Let_def effective_days url_base_def ustr_def)
qed



subsection \<open>Sample calls\<close>

lemma ustr_code_points: "list_all code_point (ustr s)"
proof -
  have "n < 256 \<Longrightarrow> code_point n" for n by (simp add: code_point_def)
  from this[OF of_char_less_256] show ?thesis by (simp add: list_all_iff ustr_def)
qed

lemma ustr_eq_iff: "ustr a = ustr b \<longleftrightarrow> a = b"
  by (simp add: ustr_def inj_of_char)

lemma zero_small: "(0::int) < 10 ^ int_max_str_digits"
  by simp

lemma fourteen_small: "(14::int) < 10 ^ int_max_str_digits"
proof -
  have "(10::int) ^ 2 \<le> 10 ^ int_max_str_digits"
    by (rule power_increasing) (simp_all add: int_max_str_digits_def)
  then show ?thesis by simp
qed

lemma url_values:
  "google_news_url ''AI'' 0 ''US'' ''en''
     = ''https://news.google.com/rss/search?q=AI+when:7d&hl=en-US&gl=US&ceid=US:en''"
  "google_news_url ''AI'' 1 ''US'' ''en''
     = ''https://news.google.com/rss/search?q=AI+when:1d&hl=en-US&gl=US&ceid=US:en''"
  "google_news_url ''large models/agents'' 14 ''GB'' ''en''
     = ''https://news.google.com/rss/search?q=large+models%2Fagents+when:14d&hl=en-GB&gl=GB&ceid=GB:en''"
  by code_simp+

lemma zero_days_url:
  "google_news_url_full (ustr ''AI'') 0 (ustr ''US'') (ustr ''en'')
     = Inr (ustr ''https://news.google.com/rss/search?q=AI+when:7d&hl=en-US&gl=US&ceid=US:en'')"
  by (simp only: google_news_url_agrees[OF zero_small] url_values)

lemma one_day_url:
  "google_news_url_full (ustr ''AI'') 1 (ustr ''US'') (ustr ''en'')
     = Inr (ustr ''https://news.google.com/rss/search?q=AI+when:1d&hl=en-US&gl=US&ceid=US:en'')"
  by (simp only: google_news_url_agrees[OF one_small] url_values)

lemma sample_url:
  "google_news_url_full (ustr ''large models/agents'') 14 (ustr ''GB'') (ustr ''en'')
     = Inr (ustr ''https://news.google.com/rss/search?q=large+models%2Fagents+when:14d&hl=en-GB&gl=GB&ceid=GB:en'')"
  by (simp only: google_news_url_agrees[OF fourteen_small] url_values)

lemma surrogate_url:
  "google_news_url_full [65, 73, 32, 55296] 7 (ustr ''US'') (ustr ''en'') = Inl UnicodeEncodeError"
  by (rule full_unicode_error) (simp add: surrogate_def)

lemma huge_days_url:
  "google_news_url_full (ustr ''AI'') (10 ^ 4300) (ustr ''US'') (ustr ''en'') = Inl ValueError"
proof -
  have "(10::int) ^ int_max_str_digits \<le> 10 ^ 4300"
    by (simp only: int_max_str_digits_def order_refl)
  from full_value_error[OF ustr_no_surrogate this] show ?thesis .
qed

lemma query_string_no_space: "query_string xs \<Longrightarrow> 32 \<notin> set xs"
proof (induction xs rule: query_string.induct)
  case 1
  then show ?case by simp
next
  case (2 c cs)
  show ?case
  proof (cases "c = 37")
    case True
    with "2.prems" obtain a b rest where cs: "cs = a # b # rest"
      and h: "hex_code a" "hex_code b" "query_string rest"
      by (auto split: list.splits)
    from "2.IH"(1)[OF True cs refl h(3)] h True cs show ?thesis
      by (auto simp add: hex_code_def)
  next
    case False
    with "2.prems" have q: "query_code c" "query_string cs" by simp_all
    from q(1) have "c \<noteq> 32" by (auto simp add: query_code_def safe_code_def sub_delim_def)
    with "2.IH"(2)[OF False q(2)] show ?thesis by simp
  qed
qed

lemma raw_region_url:
  "(case google_news_url_full (ustr ''AI'') 7 (ustr ''U S'') (ustr ''en'') of
      Inl e \<Rightarrow> False
    | Inr u \<Rightarrow> \<not> well_formed_url u)"
proof -
  have "(32::nat) \<in> set (ustr ''U S'')" by (simp add: ustr_def)
  then have "\<not> query_string (a @ ustr ''U S'' @ b)" for a b
    using query_string_no_space[of "a @ ustr ''U S'' @ b"] by auto
  then have "\<not> query_string (a @ b @ c @ d @ e @ f @ g @ ustr ''U S'' @ h)" for a b c d e f g h
    by (metis append.assoc)
  then show ?thesis
    unfolding full_ok[OF ustr_no_surrogate seven_small]
    by (simp add: well_formed_url_def)
qed

text \<open>
  C5, as the specification states it, fails in three ways.  The lookback value 0 is not
  coerced to 1: \<open>days_back or 7\<close> takes 0 for "not given" and puts the default 7 in its
  place.  The builder does have failure paths: a query with a lone surrogate makes
  \<open>quote_plus\<close> raise \<open>UnicodeEncodeError\<close>, and a day count of 4301 digits makes the
  formatting raise \<open>ValueError\<close>.  And the URL is not always well-formed: region and
  language are inserted as they are, so a space in the region reaches the URL.
\<close>

theorem feed_url_counterexample:
  "google_news_url_full (ustr ''AI'') 0 (ustr ''US'') (ustr ''en'')
     = Inr (ustr ''https://news.google.com/rss/search?q=AI+when:7d&hl=en-US&gl=US&ceid=US:en'')
   \<and> google_news_url_full (ustr ''AI'') 0 (ustr ''US'') (ustr ''en'')
       \<noteq> google_news_url_full (ustr ''AI'') 1 (ustr ''US'') (ustr ''en'')
   \<and> google_news_url_full [65, 73, 32, 55296] 7 (ustr ''US'') (ustr ''en'')
       = Inl UnicodeEncodeError
   \<and> google_news_url_full (ustr ''AI'') (10 ^ 4300) (ustr ''US'') (ustr ''en'') = Inl ValueError
   \<and> (case google_news_url_full (ustr ''AI'') 7 (ustr ''U S'') (ustr ''en'') of
         Inl e \<Rightarrow> False
       | Inr u \<Rightarrow> \<not> well_formed_url u)"
proof -
  have "google_news_url_full (ustr ''AI'') 0 (ustr ''US'') (ustr ''en'')
       \<noteq> google_news_url_full (ustr ''AI'') 1 (ustr ''US'') (ustr ''en'')"
    unfolding zero_days_url one_day_url by (simp add: ustr_eq_iff)
  with zero_days_url surrogate_url huge_days_url raw_region_url show ?thesis by blast
qed

text \<open>
  C5, amended: the URL builder coerces its inputs.  An empty query becomes \<open>AI\<close>, a
  negative number of days becomes 1 and the number 0 becomes the default 7; any other
  query is stripped and percent-encoded into a URL that embeds it with the filter
  \<open>when:{days}d\<close> and the locale parameters, and that URL is well-formed whenever
  region and language consist of unreserved characters.  The builder has no failure
  path for a query without lone surrogates and a number of days of at most 4300 decimal
  digits; a query with a lone surrogate raises \<open>UnicodeEncodeError\<close>, and otherwise a
  larger number of days raises \<open>ValueError\<close>.
\<close>

theorem google_news_url_coerces:
  assumes "list_all code_point query"
  shows
    "(list_ex surrogate query \<longrightarrow>
        google_news_url_full query days_back region lang = Inl UnicodeEncodeError)
     \<and> (\<not> list_ex surrogate query \<and> 10 ^ int_max_str_digits \<le> days_back \<longrightarrow>
        google_news_url_full query days_back region lang = Inl ValueError)
     \<and> (\<not> list_ex surrogate query \<and> days_back < 10 ^ int_max_str_digits \<longrightarrow>
        google_news_url_full query days_back region lang
          = Inr (url_base @ ustr ''q=''
                 @ (if query = [] then ustr ''AI'' else quote_codes (u_strip query))
                 @ ustr ''+when:''
                 @ ustr (str_int (if days_back = 0 then 7 else if days_back < 0 then 1
                                  else days_back))
                 @ ustr ''d&hl='' @ lang @ ustr ''-'' @ region @ ustr ''&gl='' @ region
                 @ ustr ''&ceid='' @ region @ ustr '':'' @ lang)
        \<and> query_string (if query = [] then ustr ''AI'' else quote_codes (u_strip query)))
     \<and> (list_all safe_code region \<and> list_all safe_code lang \<longrightarrow>
        well_formed_url
          (url_base @ ustr ''q=''
           @ (if query = [] then ustr ''AI'' else quote_codes (u_strip query))
           @ ustr ''+when:''
           @ ustr (str_int (if days_back = 0 then 7 else if days_back < 0 then 1
                            else days_back))
           @ ustr ''d&hl='' @ lang @ ustr ''-'' @ region @ ustr ''&gl='' @ region
           @ ustr ''&ceid='' @ region @ ustr '':'' @ lang))"
proof -
  note a = full_unicode_error[of query days_back region lang]
  note b = full_value_error[of query days_back region lang]
  note c = full_ok[of query days_back region lang]
  note d = encoded_query_string[OF assms]
  note e = full_well_formed[OF assms, of region lang days_back]
  show ?thesis
  proof (intro conjI impI)
    show "google_news_url_full query days_back region lang = Inl UnicodeEncodeError"
      if "list_ex surrogate query" using that by (rule a)
    show "google_news_url_full query days_back region lang = Inl ValueError"
      if "\<not> list_ex surrogate query \<and> 10 ^ int_max_str_digits \<le> days_back"
      using that b by blast
    show "google_news_url_full query days_back region lang
          = Inr (url_base @ ustr ''q=''
                 @ (if query = [] then ustr ''AI'' else quote_codes (u_strip query))
                 @ ustr ''+when:''
                 @ ustr (str_int (if days_back = 0 then 7 else if days_back < 0 then 1
                                  else days_back))
                 @ ustr ''d&hl='' @ lang @ ustr ''-'' @ region @ ustr ''&gl='' @ region
                 @ ustr ''&ceid='' @ region @ ustr '':'' @ lang)"
      if "\<not> list_ex surrogate query \<and> days_back < 10 ^ int_max_str_digits"
      using that c by blast
    show "query_string (if query = [] then ustr ''AI'' else quote_codes (u_strip query))"
      by (rule d)
    show "well_formed_url
          (url_base @ ustr ''q=''
           @ (if query = [] then ustr ''AI'' else quote_codes (u_strip query))
           @ ustr ''+when:''
           @ ustr (str_int (if days_back = 0 then 7 else if days_back < 0 then 1
                            else days_back))
           @ ustr ''d&hl='' @ lang @ ustr ''-'' @ region @ ustr ''&gl='' @ region
           @ ustr ''&ceid='' @ region @ ustr '':'' @ lang)"
      if "list_all safe_code region \<and> list_all safe_code lang"
      using that e by blast
  qed
qed

lemma safe_region_codes: "list_all safe_code (ustr ''GB'')" "list_all safe_code (ustr ''en'')"
  by (simp_all add: ustr_def safe_code_def)

theorem google_news_url_coerces_witness:
  "list_all code_point (ustr ''large models/agents'')
   \<and> \<not> list_ex surrogate (ustr ''large models/agents'')
   \<and> (14::int) < 10 ^ int_max_str_digits
   \<and> list_all safe_code (ustr ''GB'') \<and> list_all safe_code (ustr ''en'')
   \<and> google_news_url_full (ustr ''large models/agents'') 14 (ustr ''GB'') (ustr ''en'')
       = Inr (ustr ''https://news.google.com/rss/search?q=large+models%2Fagents+when:14d&hl=en-GB&gl=GB&ceid=GB:en'')
   \<and> well_formed_url
        (ustr ''https://news.google.com/rss/search?q=large+models%2Fagents+when:14d&hl=en-GB&gl=GB&ceid=GB:en'')"
proof -
  note a = ustr_code_points[of "''large models/agents''"]
  note b = ustr_no_surrogate[of "''large models/agents''"]
  note t = google_news_url_coerces [where query = "ustr ''large models/agents''"
      and days_back = 14 and region = "ustr ''GB''" and lang = "ustr ''en''", OF a]
  from t b fourteen_small have
    "google_news_url_full (ustr ''large models/agents'') 14 (ustr ''GB'') (ustr ''en'')
       = Inr (url_base @ ustr ''q=''
              @ (if ustr ''large models/agents'' = [] then ustr ''AI''
                 else quote_codes (u_strip (ustr ''large models/agents'')))
              @ ustr ''+when:''
              @ ustr (str_int (if (14::int) = 0 then 7 else if (14::int) < 0 then 1 else 14))
              @ ustr ''d&hl='' @ ustr ''en'' @ ustr ''-'' @ ustr ''GB'' @ ustr ''&gl='' @ ustr ''GB''
              @ ustr ''&ceid='' @ ustr ''GB'' @ ustr '':'' @ ustr ''en'')"
    by blast
  with sample_url have v:
    "url_base @ ustr ''q=''
       @ (if ustr ''large models/agents'' = [] then ustr ''AI''
          else quote_codes (u_strip (ustr ''large models/agents'')))
       @ ustr ''+when:''
       @ ustr (str_int (if (14::int) = 0 then 7 else if (14::int) < 0 then 1 else 14))
       @ ustr ''d&hl='' @ ustr ''en'' @ ustr ''-'' @ ustr ''GB'' @ ustr ''&gl='' @ ustr ''GB''
       @ ustr ''&ceid='' @ ustr ''GB'' @ ustr '':'' @ ustr ''en''
     = ustr ''https://news.google.com/rss/search?q=large+models%2Fagents+when:14d&hl=en-GB&gl=GB&ceid=GB:en''"
    by (simp only: sum.inject)
  from t safe_region_codes have
    "well_formed_url
       (url_base @ ustr ''q=''
        @ (if ustr ''large models/agents'' = [] then ustr ''AI''
           else quote_codes (u_strip (ustr ''large models/agents'')))
        @ ustr ''+when:''
        @ ustr (str_int (if (14::int) = 0 then 7 else if (14::int) < 0 then 1 else 14))
        @ ustr ''d&hl='' @ ustr ''en'' @ ustr ''-'' @ ustr ''GB'' @ ustr ''&gl='' @ ustr ''GB''
        @ ustr ''&ceid='' @ ustr ''GB'' @ ustr '':'' @ ustr ''en'')"
    by blast
  then have w: "well_formed_url
        (ustr ''https://news.google.com/rss/search?q=large+models%2Fagents+when:14d&hl=en-GB&gl=GB&ceid=GB:en'')"
    by (simp only: v)
  from a b fourteen_small safe_region_codes sample_url w show ?thesis by blast
qed

section \<open>Keywords without the vectorizer\<close>

text \<open>
  In the fallback every token that reaches the counter has at least three characters
  and is no filler word, and the result holds only such tokens.
\<close>

lemma word_loop_tokens:
  "t \<in> set (word_loop ws tokens) \<Longrightarrow> t \<in> set tokens \<or> (3 \<le> length t \<and> t \<notin> set fillers)"
proof (induction ws arbitrary: tokens)
  case Nil
  then show ?case by simp
next
  case (Cons w ws)
  show ?case
  proof (cases "length (filter isalnum w) < 3 \<or> filter isalnum w \<in> set fillers")
    case True
    with Cons.prems have "t \<in> set (word_loop ws tokens)" by (simp add: Let_def)
    from Cons.IH[OF this] show ?thesis .
  next
    case False
    with Cons.prems have "t \<in> set (word_loop ws (tokens @ [filter isalnum w]))"
      by (simp add: Let_def)
    from Cons.IH[OF this] False show ?thesis by auto
  qed
qed

lemma text_loop_tokens:
  "t \<in> set (text_loop texts tokens) \<Longrightarrow> t \<in> set tokens \<or> (3 \<le> length t \<and> t \<notin> set fillers)"
proof (induction texts arbitrary: tokens)
  case Nil
  then show ?case by simp
next
  case (Cons x xs)
  from Cons.prems have
    "t \<in> set (text_loop xs (word_loop (split_ws (lower (or_str (Some x) []))) tokens))"
    by simp
  from Cons.IH[OF this] word_loop_tokens show ?case by blast
qed

lemma counter_add_keys: "fst ` set (counter_add kvs w) = insert w (fst ` set kvs)"
  by (induction kvs w rule: counter_add.induct) auto

lemma Counter_keys_aux: "fst ` set (foldl counter_add kvs tokens) = fst ` set kvs \<union> set tokens"
  by (induction tokens arbitrary: kvs) (auto simp add: counter_add_keys)

lemma Counter_keys: "fst ` set (Counter tokens) = set tokens"
  by (simp add: Counter_def Counter_keys_aux)

lemma most_common_sub: "set (most_common n cnt) \<subseteq> set cnt"
  using set_take_subset[of "nat n" "sort_desc cnt"] by (simp add: most_common_def sort_desc_def)

lemma most_common_length: "length (most_common n cnt) \<le> nat n"
  by (simp add: most_common_def)

lemma fallback_terms:
  assumes "kv \<in> set (extract_keywords None texts top_k)"
  shows "3 \<le> length (fst kv) \<and> fst kv \<notin> set fillers"
proof -
  from assms have "kv \<in> set (most_common top_k (Counter (text_loop texts [])))"
    by (simp add: extract_keywords_def split: if_splits)
  then have "kv \<in> set (Counter (text_loop texts []))" using most_common_sub by blast
  then have "fst kv \<in> set (text_loop texts [])" using Counter_keys by blast
  from text_loop_tokens[OF this] show ?thesis by simp
qed

lemma fallback_length: "length (extract_keywords None texts top_k) \<le> nat top_k"
  by (simp add: extract_keywords_def most_common_length)

lemma doctor_keywords: "extract_keywords None doctor_texts 2 = [(''helps'', 2), (''doctors'', 2)]"
  by code_simp

text \<open>
  C3, as the specification states it, fails: the fallback drops \<open>ai\<close>, a token of two
  characters, before it counts, so the term is not in the result at all.
\<close>

theorem keywords_ai_counterexample:
  "map fst (extract_keywords None doctor_texts 2) = [''helps'', ''doctors'']
   \<and> ''ai'' \<notin> set (map fst (extract_keywords None doctor_texts 2))
   \<and> length ''ai'' < 3"
  by (simp add: doctor_keywords)

text \<open>
  C3, amended: in the fallback strategy \<open>extract_keywords\<close> returns at most \<open>top_k\<close>
  entries, each a term of at least three characters that is no filler word; on the texts
  "AI helps doctors", "AI helps lawyers", "doctors use AI" with \<open>top_k = 2\<close> it returns
  \<open>helps\<close> and \<open>doctors\<close>, both with count 2, in the order of their first occurrence,
  and \<open>ai\<close> is left out.
\<close>

theorem keywords_fallback_short_tokens:
  "length (extract_keywords None texts top_k) \<le> nat top_k
   \<and> (\<forall>kv \<in> set (extract_keywords None texts top_k).
         3 \<le> length (fst kv) \<and> fst kv \<notin> set fillers)
   \<and> extract_keywords None doctor_texts 2 = [(''helps'', 2), (''doctors'', 2)]"
  using fallback_terms fallback_length doctor_keywords by blast

theorem keywords_fallback_short_tokens_witness:
  "(''helps'', 2) \<in> set (extract_keywords None doctor_texts 2) \<and> 3 \<le> length ''helps''
   \<and> length (extract_keywords None doctor_texts 2) \<le> nat 2"
  using keywords_fallback_short_tokens [where texts = doctor_texts and top_k = 2]
  by (simp add: doctor_keywords)

end
